theory Spec2Isabelle
  imports Main
begin

section \<open>Errors, log records and the observable history\<close>

text \<open>
  \<open>exn\<close> is an Error object; only its message matters to the code under study
  (\<open>error.message\<close> and \<open>error.stack\<close> are all that is ever read). The transport, the
  socket, the logger and the JavaScript runtime throw Error objects.

  \<open>thrown\<close> is what user code (a handler, an error hook, an end-callback) may throw or
  reject with: any value. \<open>Nullish\<close> is \<open>null\<close> or \<open>undefined\<close>, the values on which reading
  a property fails; \<open>Thrown e\<close> is any other value (reading \<open>message\<close> from it succeeds,
  whatever it gives).
\<close>

datatype exn = Exn string

datatype thrown = Nullish | Thrown exn

datatype level = LDebug | LWarn | LError

text \<open>
  Everything the code does to the outside world is appended to one history: the calls of
  the logger, the calls that reach the transport's own (saved) methods, and the close of
  the socket. \<open>PerformBegin\<close>, \<open>PerformEnd\<close> and \<open>CallSettled\<close> are markers: they record
  when the body of \<open>_performTermination\<close> starts and finishes and when a call of
  \<open>coordinatedTermination\<close> settles, and they change no behaviour.
\<close>

datatype event =
    Logged level string
  | WriteHeadCall nat "(string \<times> string) list"
  | WriteCall string
  | EndCall "string option"
  | SocketDestroyCall
  | PerformBegin string
  | PerformEnd
  | CallSettled nat "exn option"

text \<open>
  An already settled promise. \<open>_performTermination\<close> has no \<open>await\<close> in its body, so the
  promise it returns is settled when the call returns; \<open>Promise.resolve()\<close> is fulfilled.
\<close>

datatype promise = Fulfilled | Rejected exn

section \<open>The collaborators\<close>

text \<open>
  The logger module and the transport object \<open>res\<close> are not part of the code under study;
  they are parameters. Each of their operations may return or throw (\<open>Some e\<close>), as a
  function of its arguments and of the history so far. \<open>socket\<close> is \<open>None\<close> when
  \<open>res.socket\<close> is missing or has no \<open>destroy\<close> function.
\<close>

record env =
  logger :: "level \<Rightarrow> string \<Rightarrow> exn option"
  originalWriteHead :: "nat \<Rightarrow> (string \<times> string) list \<Rightarrow> event list \<Rightarrow> exn option"
  originalWrite :: "string \<Rightarrow> event list \<Rightarrow> exn + bool"
  originalEnd :: "string option \<Rightarrow> event list \<Rightarrow> exn option"
  socket :: "(event list \<Rightarrow> exn option) option"

definition logger_ok :: "env \<Rightarrow> bool" where
  "logger_ok E = (\<forall>l msg. logger E l msg = None)"

section \<open>Control flow: return, throw, sequencing, try/catch\<close>

text \<open>
  A computation takes a state and gives a result, \<open>Inl\<close> what it threw or \<open>Inr\<close> what it
  returned, with the new state.
\<close>

definition ret :: "'a \<Rightarrow> 's \<Rightarrow> ('e + 'a) \<times> 's" where
  "ret a s = (Inr a, s)"

definition throw :: "'e \<Rightarrow> 's \<Rightarrow> ('e + 'a) \<times> 's" where
  "throw e s = (Inl e, s)"

definition andThen ::
  "('s \<Rightarrow> ('e + 'a) \<times> 's) \<Rightarrow> ('a \<Rightarrow> 's \<Rightarrow> ('e + 'b) \<times> 's) \<Rightarrow> 's \<Rightarrow> ('e + 'b) \<times> 's" where
  "andThen m f s = (case m s of (Inl e, s') \<Rightarrow> (Inl e, s') | (Inr a, s') \<Rightarrow> f a s')"

definition tryCatch ::
  "('s \<Rightarrow> ('e + 'a) \<times> 's) \<Rightarrow> ('e \<Rightarrow> 's \<Rightarrow> ('e + 'a) \<times> 's) \<Rightarrow> 's \<Rightarrow> ('e + 'a) \<times> 's" where
  "tryCatch m h s = (case m s of (Inl e, s') \<Rightarrow> h e s' | (Inr a, s') \<Rightarrow> (Inr a, s'))"

text \<open>
  Reading \<open>error.message\<close> (or \<open>error.stack\<close>) from a caught value: on \<open>null\<close> and
  \<open>undefined\<close> the runtime throws a TypeError (its message differs between the two; one
  message stands for both here). \<open>raised m\<close> is a computation that throws Error objects,
  used where any value may be thrown.
\<close>

definition nullMessageRead :: exn where
  "nullMessageRead = Exn ''TypeError: Cannot read properties of null or undefined''"

definition messageOf :: "thrown \<Rightarrow> exn + string" where
  "messageOf v = (case v of Nullish \<Rightarrow> Inl nullMessageRead | Thrown (Exn msg) \<Rightarrow> Inr msg)"

definition readMessage :: "thrown \<Rightarrow> 's \<Rightarrow> (thrown + string) \<times> 's" where
  "readMessage v s =
     (case messageOf v of Inl typeError \<Rightarrow> (Inl (Thrown typeError), s) | Inr msg \<Rightarrow> (Inr msg, s))"

definition raised :: "('s \<Rightarrow> (exn + 'a) \<times> 's) \<Rightarrow> 's \<Rightarrow> (thrown + 'a) \<times> 's" where
  "raised m s = (case m s of (Inl e, s') \<Rightarrow> (Inl (Thrown e), s') | (Inr a, s') \<Rightarrow> (Inr a, s'))"

section \<open>ResponseState\<close>

record ResponseState =
  isHeadersSent :: bool
  isEnded :: bool
  isDestroyed :: bool
  isStreaming :: bool
  streamingCompleted :: bool
  isTerminationInProgress :: bool
  terminationLock :: promise
  terminationReason :: "string option"
  history :: "event list"

text \<open>The constructor: all flags false, the lock \<open>Promise.resolve()\<close>, no reason.\<close>

definition newResponseState :: ResponseState where
  "newResponseState =
     \<lparr> isHeadersSent = False, isEnded = False, isDestroyed = False,
       isStreaming = False, streamingCompleted = False,
       isTerminationInProgress = False, terminationLock = Fulfilled,
       terminationReason = None, history = [] \<rparr>"

definition emit :: "event \<Rightarrow> ResponseState \<Rightarrow> ResponseState" where
  "emit ev s = s\<lparr>history := history s @ [ev]\<rparr>"

definition log :: "env \<Rightarrow> level \<Rightarrow> string \<Rightarrow> ResponseState \<Rightarrow> (exn + unit) \<times> ResponseState" where
  "log E l msg s =
     ((case logger E l msg of None \<Rightarrow> Inr () | Some e \<Rightarrow> Inl e), emit (Logged l msg) s)"

subsection \<open>The saved methods of the transport\<close>

text \<open>
  \<open>originalWriteHead\<close> returns the response object (a truthy value, \<open>True\<close> here),
  \<open>originalWrite\<close> a boolean, \<open>originalEnd\<close> a value nobody reads.
\<close>

definition callOriginalWriteHead ::
  "env \<Rightarrow> nat \<Rightarrow> (string \<times> string) list \<Rightarrow> ResponseState \<Rightarrow> (exn + bool) \<times> ResponseState" where
  "callOriginalWriteHead E status hdrs s =
     ((case originalWriteHead E status hdrs (history s) of None \<Rightarrow> Inr True | Some e \<Rightarrow> Inl e),
      emit (WriteHeadCall status hdrs) s)"

definition callOriginalWrite ::
  "env \<Rightarrow> string \<Rightarrow> ResponseState \<Rightarrow> (exn + bool) \<times> ResponseState" where
  "callOriginalWrite E chunk s = (originalWrite E chunk (history s), emit (WriteCall chunk) s)"

definition callOriginalEnd ::
  "env \<Rightarrow> string option \<Rightarrow> ResponseState \<Rightarrow> (exn + bool) \<times> ResponseState" where
  "callOriginalEnd E chunk s =
     ((case originalEnd E chunk (history s) of None \<Rightarrow> Inr True | Some e \<Rightarrow> Inl e),
      emit (EndCall chunk) s)"

definition callSocketDestroy ::
  "(event list \<Rightarrow> exn option) \<Rightarrow> ResponseState \<Rightarrow> (exn + unit) \<times> ResponseState" where
  "callSocketDestroy d s =
     ((case d (history s) of None \<Rightarrow> Inr () | Some e \<Rightarrow> Inl e), emit SocketDestroyCall s)"

subsection \<open>The methods installed on \<open>res\<close> by \<open>_overrideMethods\<close>\<close>

definition res_writeHead ::
  "env \<Rightarrow> nat \<Rightarrow> (string \<times> string) list \<Rightarrow> ResponseState \<Rightarrow> (exn + bool) \<times> ResponseState" where
  "res_writeHead E status hdrs s =
     (if isHeadersSent s
      then andThen (log E LWarn ''Attempted to write headers after they were already sent'')
             (\<lambda>_. ret False) s
      else callOriginalWriteHead E status hdrs (s\<lparr>isHeadersSent := True\<rparr>))"

definition res_write :: "env \<Rightarrow> string \<Rightarrow> ResponseState \<Rightarrow> (exn + bool) \<times> ResponseState" where
  "res_write E chunk s =
     (if isEnded s
      then andThen (log E LWarn ''Attempted to write to ended response'') (\<lambda>_. ret False) s
      else if isDestroyed s
      then andThen (log E LWarn ''Attempted to write to destroyed response'') (\<lambda>_. ret False) s
      else callOriginalWrite E chunk s)"

definition markEnded :: "ResponseState \<Rightarrow> ResponseState" where
  "markEnded s =
     (let s1 = s\<lparr>isEnded := True\<rparr>
      in if isStreaming s1 \<and> \<not> streamingCompleted s1 then s1\<lparr>streamingCompleted := True\<rparr> else s1)"

definition res_end :: "env \<Rightarrow> string option \<Rightarrow> ResponseState \<Rightarrow> (exn + bool) \<times> ResponseState" where
  "res_end E chunk s =
     (if isEnded s
      then andThen (log E LWarn ''Attempted to end already ended response'') (\<lambda>_. ret False) s
      else callOriginalEnd E chunk (markEnded s))"

definition res_safeWriteHead ::
  "env \<Rightarrow> nat \<Rightarrow> (string \<times> string) list \<Rightarrow> ResponseState \<Rightarrow> (exn + bool) \<times> ResponseState" where
  "res_safeWriteHead E status hdrs s =
     (if \<not> isHeadersSent s \<and> \<not> isEnded s then callOriginalWriteHead E status hdrs s
      else ret False s)"

definition res_safeWrite :: "env \<Rightarrow> string \<Rightarrow> ResponseState \<Rightarrow> (exn + bool) \<times> ResponseState" where
  "res_safeWrite E chunk s =
     (if \<not> isEnded s \<and> \<not> isDestroyed s then callOriginalWrite E chunk s else ret False s)"

definition res_safeEnd :: "env \<Rightarrow> string option \<Rightarrow> ResponseState \<Rightarrow> (exn + bool) \<times> ResponseState" where
  "res_safeEnd E chunk s =
     (if \<not> isEnded s \<and> \<not> isDestroyed s then callOriginalEnd E chunk (markEnded s)
      else ret False s)"

definition canWrite :: "ResponseState \<Rightarrow> bool" where
  "canWrite s = (\<not> isEnded s \<and> \<not> isDestroyed s)"

definition canWriteHeaders :: "ResponseState \<Rightarrow> bool" where
  "canWriteHeaders s = (\<not> isHeadersSent s \<and> \<not> isEnded s \<and> \<not> isDestroyed s)"

definition markStreamingStarted :: "ResponseState \<Rightarrow> ResponseState" where
  "markStreamingStarted s = s\<lparr>isStreaming := True\<rparr>"

definition markStreamingCompleted :: "ResponseState \<Rightarrow> ResponseState" where
  "markStreamingCompleted s = s\<lparr>streamingCompleted := True\<rparr>"

subsection \<open>The safe accessors\<close>

definition safeWriteHeaders ::
  "env \<Rightarrow> nat \<Rightarrow> (string \<times> string) list \<Rightarrow> ResponseState \<Rightarrow> (exn + bool) \<times> ResponseState" where
  "safeWriteHeaders E status hdrs =
     tryCatch
       (\<lambda>s. if canWriteHeaders s
            then andThen (res_writeHead E status hdrs) (\<lambda>_. ret True) s
            else ret False s)
       (\<lambda>error. andThen (log E LError ''Failed to write headers'') (\<lambda>_. ret False))"

definition safeWrite :: "env \<Rightarrow> string \<Rightarrow> ResponseState \<Rightarrow> (exn + bool) \<times> ResponseState" where
  "safeWrite E chunk =
     tryCatch
       (\<lambda>s. if canWrite s then res_write E chunk s else ret False s)
       (\<lambda>error. andThen (log E LError ''Failed to write response data'') (\<lambda>_. ret False))"

definition safeEnd :: "env \<Rightarrow> string option \<Rightarrow> ResponseState \<Rightarrow> (exn + bool) \<times> ResponseState" where
  "safeEnd E chunk =
     tryCatch
       (\<lambda>s. if canWrite s
            then andThen (res_end E chunk) (\<lambda>_. ret True) s
            else ret False s)
       (\<lambda>error. andThen (log E LError ''Failed to end response'') (\<lambda>_. ret False))"

subsection \<open>\<open>destroy\<close>\<close>

definition destroy :: "env \<Rightarrow> ResponseState \<Rightarrow> (exn + unit) \<times> ResponseState" where
  "destroy E s =
     (let s1 = s\<lparr>isDestroyed := True, isEnded := True\<rparr>
      in case socket E of
           None \<Rightarrow> ret () s1
         | Some d \<Rightarrow>
             tryCatch (callSocketDestroy d)
               (\<lambda>error. log E LWarn ''Failed to destroy response socket'') s1)"

subsection \<open>Coordinated termination\<close>

text \<open>
  \<open>_performTermination\<close> is an async function without any \<open>await\<close>: its body runs to the
  end inside the call, and the promise it returns is fulfilled when the body returned and
  rejected when it threw.
\<close>

definition performTermination_body ::
  "env \<Rightarrow> string \<Rightarrow> ResponseState \<Rightarrow> (exn + unit) \<times> ResponseState" where
  "performTermination_body E reason =
     tryCatch
       (andThen
          (\<lambda>s. if \<not> isEnded s \<and> canWrite s
               then andThen (log E LDebug ''Ending response during coordinated termination'')
                      (\<lambda>_. andThen (safeEnd E None) (\<lambda>_. ret ())) s
               else log E LDebug ''Skipping response end - already ended or cannot write'' s)
          (\<lambda>_ s. if isStreaming s \<and> \<not> streamingCompleted s
                 then log E LDebug ''Marked streaming as completed during termination''
                        (s\<lparr>streamingCompleted := True\<rparr>)
                 else ret () s))
       (\<lambda>error. andThen (log E LError ''Error during termination execution'')
                  (\<lambda>_. throw error))"

definition performTermination :: "env \<Rightarrow> string \<Rightarrow> ResponseState \<Rightarrow> promise \<times> ResponseState" where
  "performTermination E reason s =
     (case performTermination_body E reason (emit (PerformBegin reason) s) of
        (Inr _, s') \<Rightarrow> (Fulfilled, emit PerformEnd s')
      | (Inl e, s') \<Rightarrow> (Rejected e, emit PerformEnd s'))"

text \<open>
  \<open>coordinatedTermination\<close> is an async function with one \<open>await\<close> on each path. A call
  runs up to its \<open>await\<close> (\<open>coordinatedTermination_start\<close>) and is suspended there, holding
  the promise it awaits; the event loop resumes it later
  (\<open>coordinatedTermination_resume\<close>). \<open>Inl e\<close> from the first half is a call that threw
  before it reached the \<open>await\<close>: its promise is rejected with \<open>e\<close>.
\<close>

datatype suspended = AwaitJoin promise | AwaitDrive string promise

definition await :: "promise \<Rightarrow> ResponseState \<Rightarrow> (exn + unit) \<times> ResponseState" where
  "await p s = (case p of Fulfilled \<Rightarrow> ret () s | Rejected e \<Rightarrow> throw e s)"

definition coordinatedTermination_start ::
  "env \<Rightarrow> string \<Rightarrow> ResponseState \<Rightarrow> (exn + suspended) \<times> ResponseState" where
  "coordinatedTermination_start E reason s =
     (if isTerminationInProgress s
      then andThen (log E LDebug ''Termination already in progress, waiting'')
             (\<lambda>_ s1. ret (AwaitJoin (terminationLock s1)) s1) s
      else andThen (log E LDebug ''Starting coordinated termination'')
             (\<lambda>_ s2. case performTermination E reason s2 of
                       (p, s3) \<Rightarrow> ret (AwaitDrive reason p) (s3\<lparr>terminationLock := p\<rparr>))
             (s\<lparr>isTerminationInProgress := True, terminationReason := Some reason\<rparr>))"

definition coordinatedTermination_resume ::
  "env \<Rightarrow> suspended \<Rightarrow> ResponseState \<Rightarrow> (exn + unit) \<times> ResponseState" where
  "coordinatedTermination_resume E k s =
     (case k of
        AwaitJoin p \<Rightarrow> await p s
      | AwaitDrive reason p \<Rightarrow>
          (case tryCatch (await p)
                  (\<lambda>error. log E LWarn ''Error during coordinated termination'') s of
             (r, s') \<Rightarrow> (r, s'\<lparr>isTerminationInProgress := False\<rparr>)))"

text \<open>One call, resumed before anything else runs.\<close>

definition coordinatedTermination ::
  "env \<Rightarrow> string \<Rightarrow> ResponseState \<Rightarrow> (exn + unit) \<times> ResponseState" where
  "coordinatedTermination E reason =
     andThen (coordinatedTermination_start E reason) (coordinatedTermination_resume E)"

section \<open>SafeSSEWriter\<close>

text \<open>
  \<open>writeEvent\<close> receives the outcome of \<open>JSON.stringify\<close> on its payload (the text, or
  the error it throws) and the event type; an empty event type is falsy and adds no
  \<open>event:\<close> line. The template literals of \<open>writeEvent\<close> end the frame with two line
  feeds. The literal of \<open>writeDone\<close> is \<open>'data: [DONE]\\n\\n'\<close> with doubled backslashes:
  each \<open>\\n\<close> of it is a backslash followed by the letter n.
\<close>

definition LF :: char where
  "LF = CHR 0x0A"

definition backslash :: char where
  "backslash = CHR 0x5C"

definition doneLiteral :: string where
  "doneLiteral = ''data: [DONE]'' @ [backslash, CHR ''n'', backslash, CHR ''n'']"

definition writeEvent ::
  "env \<Rightarrow> exn + string \<Rightarrow> string option \<Rightarrow> ResponseState \<Rightarrow> (exn + bool) \<times> ResponseState" where
  "writeEvent E json eventType s =
     (if \<not> canWrite s then ret False s
      else tryCatch
             (andThen (\<lambda>s. (json, s))
                (\<lambda>txt. let sseData = ''data: '' @ txt @ [LF, LF];
                           sseData' = (case eventType of
                                         None \<Rightarrow> sseData
                                       | Some t \<Rightarrow> if t = [] then sseData
                                                  else ''event: '' @ t @ [LF] @ sseData)
                       in safeWrite E sseData'))
             (\<lambda>error. andThen (log E LError ''Failed to write SSE event'') (\<lambda>_. ret False)) s)"

definition writeDone :: "env \<Rightarrow> ResponseState \<Rightarrow> (exn + bool) \<times> ResponseState" where
  "writeDone E s =
     (if \<not> canWrite s then ret False s
      else tryCatch (safeWrite E doneLiteral)
             (\<lambda>error. andThen (log E LError ''Failed to write SSE DONE'') (\<lambda>_. ret False)) s)"

section \<open>withStreamingErrorBoundary\<close>

text \<open>
  The handler \<open>fn\<close> and the optional \<open>errorHandler\<close> are arbitrary code acting on the
  response state; each settles with a value or with whatever it threw. The catch block of
  the wrapper is modelled statement by statement. Its first statement and the catch
  around \<open>errorHandler\<close> read \<open>message\<close> from a value thrown by user code; the other catch
  blocks receive Error objects. \<open>errorPayload\<close> is the text \<open>JSON.stringify\<close> gives for the
  fixed error object.
\<close>

definition dq :: char where
  "dq = CHR 0x22"

definition quoted :: "string \<Rightarrow> string" where
  "quoted x = [dq] @ x @ [dq]"

definition errorPayload :: string where
  "errorPayload =
     ''{'' @ quoted ''error'' @ '':{'' @
       quoted ''message'' @ '':'' @ quoted ''Internal streaming error'' @ '','' @
       quoted ''type'' @ '':'' @ quoted ''api_error'' @ '','' @
       quoted ''code'' @ '':'' @ quoted ''streaming_error'' @ ''}}''"

definition boundary_logError :: "env \<Rightarrow> thrown \<Rightarrow> ResponseState \<Rightarrow> (thrown + unit) \<times> ResponseState" where
  "boundary_logError E error =
     andThen (readMessage error)
       (\<lambda>_. raised (log E LError ''Streaming error boundary triggered''))"

definition boundary_terminate :: "env \<Rightarrow> ResponseState \<Rightarrow> (exn + unit) \<times> ResponseState" where
  "boundary_terminate E =
     tryCatch (coordinatedTermination E ''error_boundary'')
       (\<lambda>terminationError.
          log E LWarn ''Coordinated termination failed in error boundary'')"

definition boundary_sendError :: "env \<Rightarrow> ResponseState \<Rightarrow> (exn + unit) \<times> ResponseState" where
  "boundary_sendError E =
     tryCatch
       (andThen
          (safeWriteHeaders E 500
             [(''Content-Type'', ''application/json''), (''Connection'', ''close'')])
          (\<lambda>_. andThen (safeWrite E errorPayload)
                 (\<lambda>_. andThen (safeEnd E None) (\<lambda>_. ret ()))))
       (\<lambda>writeError. log E LError ''Failed to send error response in stream'')"

definition boundary_respond :: "env \<Rightarrow> ResponseState \<Rightarrow> (exn + unit) \<times> ResponseState" where
  "boundary_respond E s =
     (if canWriteHeaders s then boundary_sendError E s
      else log E LDebug
             ''Skipping error response - headers already sent or response ended'' s)"

definition boundary_errorHandler ::
  "env \<Rightarrow> (thrown \<Rightarrow> ResponseState \<Rightarrow> (thrown + unit) \<times> ResponseState) option \<Rightarrow> thrown \<Rightarrow>
     ResponseState \<Rightarrow> (thrown + unit) \<times> ResponseState" where
  "boundary_errorHandler E errorHandler error =
     (case errorHandler of
        None \<Rightarrow> ret ()
      | Some h \<Rightarrow>
          tryCatch (h error)
            (\<lambda>handlerError.
               andThen (readMessage handlerError)
                 (\<lambda>_. raised (log E LError ''Error handler failed''))))"

definition boundary_catch ::
  "env \<Rightarrow> (thrown \<Rightarrow> ResponseState \<Rightarrow> (thrown + unit) \<times> ResponseState) option \<Rightarrow> thrown \<Rightarrow>
     ResponseState \<Rightarrow> (thrown + 'a) \<times> ResponseState" where
  "boundary_catch E errorHandler error =
     andThen (boundary_logError E error)
       (\<lambda>_. andThen (raised (boundary_terminate E))
          (\<lambda>_. andThen (raised (boundary_respond E))
             (\<lambda>_. andThen (boundary_errorHandler E errorHandler error)
                (\<lambda>_. andThen (raised (destroy E)) (\<lambda>_. throw error)))))"

definition withStreamingErrorBoundary ::
  "env \<Rightarrow> (ResponseState \<Rightarrow> (thrown + 'a) \<times> ResponseState) \<Rightarrow>
     (thrown \<Rightarrow> ResponseState \<Rightarrow> (thrown + unit) \<times> ResponseState) option \<Rightarrow>
     ResponseState \<Rightarrow> (thrown + 'a) \<times> ResponseState" where
  "withStreamingErrorBoundary E fn errorHandler =
     tryCatch fn (boundary_catch E errorHandler)"

section \<open>Callers acting on one response\<close>

text \<open>
  Execution is single-threaded: a synchronous method runs to its end, an async call runs
  to its \<open>await\<close> and is resumed by the event loop at some later point. A run of the
  system is a sequence of such steps. \<open>Resume i\<close> resumes the suspended call number \<open>i\<close>
  (calls of \<open>coordinatedTermination\<close> are numbered as they are made) and does nothing when
  no such call is suspended.
\<close>

datatype call =
    SafeWriteHeaders nat "(string \<times> string) list"
  | SafeWrite string
  | SafeEnd "string option"
  | ResWriteHead nat "(string \<times> string) list"
  | ResWrite string
  | ResEnd "string option"
  | ResSafeWriteHead nat "(string \<times> string) list"
  | ResSafeWrite string
  | ResSafeEnd "string option"
  | MarkStreamingStarted
  | MarkStreamingCompleted
  | Destroy
  | WriteEvent "exn + string" "string option"
  | WriteDone
  | CoordinatedTermination string
  | Resume nat

record system =
  rstate :: ResponseState
  suspendedCalls :: "(nat \<times> suspended) list"
  nextCall :: nat

definition newSystem :: "ResponseState \<Rightarrow> system" where
  "newSystem s = \<lparr> rstate = s, suspendedCalls = [], nextCall = 0 \<rparr>"

definition settled :: "exn + 'a \<Rightarrow> exn option" where
  "settled r = (case r of Inl e \<Rightarrow> Some e | Inr _ \<Rightarrow> None)"

fun exec :: "env \<Rightarrow> call \<Rightarrow> system \<Rightarrow> system" where
  "exec E (SafeWriteHeaders status hdrs) sys =
     sys\<lparr>rstate := snd (safeWriteHeaders E status hdrs (rstate sys))\<rparr>"
| "exec E (SafeWrite chunk) sys = sys\<lparr>rstate := snd (safeWrite E chunk (rstate sys))\<rparr>"
| "exec E (SafeEnd chunk) sys = sys\<lparr>rstate := snd (safeEnd E chunk (rstate sys))\<rparr>"
| "exec E (ResWriteHead status hdrs) sys =
     sys\<lparr>rstate := snd (res_writeHead E status hdrs (rstate sys))\<rparr>"
| "exec E (ResWrite chunk) sys = sys\<lparr>rstate := snd (res_write E chunk (rstate sys))\<rparr>"
| "exec E (ResEnd chunk) sys = sys\<lparr>rstate := snd (res_end E chunk (rstate sys))\<rparr>"
| "exec E (ResSafeWriteHead status hdrs) sys =
     sys\<lparr>rstate := snd (res_safeWriteHead E status hdrs (rstate sys))\<rparr>"
| "exec E (ResSafeWrite chunk) sys =
     sys\<lparr>rstate := snd (res_safeWrite E chunk (rstate sys))\<rparr>"
| "exec E (ResSafeEnd chunk) sys = sys\<lparr>rstate := snd (res_safeEnd E chunk (rstate sys))\<rparr>"
| "exec E MarkStreamingStarted sys = sys\<lparr>rstate := markStreamingStarted (rstate sys)\<rparr>"
| "exec E MarkStreamingCompleted sys = sys\<lparr>rstate := markStreamingCompleted (rstate sys)\<rparr>"
| "exec E Destroy sys = sys\<lparr>rstate := snd (destroy E (rstate sys))\<rparr>"
| "exec E (WriteEvent json eventType) sys =
     sys\<lparr>rstate := snd (writeEvent E json eventType (rstate sys))\<rparr>"
| "exec E WriteDone sys = sys\<lparr>rstate := snd (writeDone E (rstate sys))\<rparr>"
| "exec E (CoordinatedTermination reason) sys =
     (case coordinatedTermination_start E reason (rstate sys) of
        (Inl e, s') \<Rightarrow>
          sys\<lparr>rstate := emit (CallSettled (nextCall sys) (Some e)) s',
              nextCall := Suc (nextCall sys)\<rparr>
      | (Inr k, s') \<Rightarrow>
          sys\<lparr>rstate := s',
              suspendedCalls := suspendedCalls sys @ [(nextCall sys, k)],
              nextCall := Suc (nextCall sys)\<rparr>)"
| "exec E (Resume i) sys =
     (case map_of (suspendedCalls sys) i of
        None \<Rightarrow> sys
      | Some k \<Rightarrow>
          (case coordinatedTermination_resume E k (rstate sys) of
             (r, s') \<Rightarrow>
               sys\<lparr>rstate := emit (CallSettled i (settled r)) s',
                   suspendedCalls := filter (\<lambda>p. fst p \<noteq> i) (suspendedCalls sys)\<rparr>))"

definition run :: "env \<Rightarrow> call list \<Rightarrow> system \<Rightarrow> system" where
  "run E cs sys = fold (exec E) cs sys"

section \<open>Observations on a history\<close>

fun isEndCall :: "event \<Rightarrow> bool" where
  "isEndCall (EndCall _) = True"
| "isEndCall _ = False"

fun isWriteHeadCall :: "event \<Rightarrow> bool" where
  "isWriteHeadCall (WriteHeadCall _ _) = True"
| "isWriteHeadCall _ = False"

fun isCallSettled :: "event \<Rightarrow> bool" where
  "isCallSettled (CallSettled _ _) = True"
| "isCallSettled _ = False"

fun isPerformBegin :: "event \<Rightarrow> bool" where
  "isPerformBegin (PerformBegin _) = True"
| "isPerformBegin _ = False"

definition endCalls :: "ResponseState \<Rightarrow> nat" where
  "endCalls s = length (filter isEndCall (history s))"

definition headerWrites :: "ResponseState \<Rightarrow> nat" where
  "headerWrites s = length (filter isWriteHeadCall (history s))"

definition socketCloses :: "ResponseState \<Rightarrow> nat" where
  "socketCloses s = count_list (history s) SocketDestroyCall"

text \<open>Several calls of \<open>safeWriteHeaders\<close>, one after the other, with their results.\<close>

fun safeWriteHeadersAll ::
  "env \<Rightarrow> (nat \<times> (string \<times> string) list) list \<Rightarrow> ResponseState \<Rightarrow>
     (exn + bool) list \<times> ResponseState" where
  "safeWriteHeadersAll E [] s = ([], s)"
| "safeWriteHeadersAll E (a # as) s =
     (case safeWriteHeaders E (fst a) (snd a) s of
        (r, s1) \<Rightarrow> (case safeWriteHeadersAll E as s1 of (rs, s2) \<Rightarrow> (r # rs, s2)))"

section \<open>Sample collaborators\<close>

text \<open>
  \<open>quietEnv\<close>: nothing throws, writes report \<open>true\<close>, the socket can be destroyed.
  \<open>hostileEnv\<close>: every operation of the transport, of the socket and of the logger throws.
\<close>

definition quietEnv :: env where
  "quietEnv =
     \<lparr> logger = (\<lambda>l msg. None),
       originalWriteHead = (\<lambda>status hdrs h. None),
       originalWrite = (\<lambda>chunk h. Inr True),
       originalEnd = (\<lambda>chunk h. None),
       socket = Some (\<lambda>h. None) \<rparr>"

definition hostileEnv :: env where
  "hostileEnv =
     \<lparr> logger = (\<lambda>l msg. Some (Exn ''logger failed'')),
       originalWriteHead = (\<lambda>status hdrs h. Some (Exn ''writeHead failed'')),
       originalWrite = (\<lambda>chunk h. Inl (Exn ''write failed'')),
       originalEnd = (\<lambda>chunk h. Some (Exn ''end failed'')),
       socket = Some (\<lambda>h. Some (Exn ''socket failed'')) \<rparr>"

section \<open>Relations kept by every step\<close>

text \<open>\<open>keeps R m\<close>: every run of \<open>m\<close>, returning or throwing, relates the state before to the state after.\<close>

definition keeps :: "('s \<Rightarrow> 's \<Rightarrow> bool) \<Rightarrow> ('s \<Rightarrow> 'r \<times> 's) \<Rightarrow> bool" where
  "keeps R m = (\<forall>s. R s (snd (m s)))"

text \<open>The three flags that are only ever set.\<close>

definition sticky :: "ResponseState \<Rightarrow> ResponseState \<Rightarrow> bool" where
  "sticky s s' = ((isEnded s \<longrightarrow> isEnded s') \<and> (isDestroyed s \<longrightarrow> isDestroyed s') \<and>
                  (isHeadersSent s \<longrightarrow> isHeadersSent s'))"

text \<open>
  \<open>syncRel E R\<close>: \<open>R\<close> is a preorder kept by the logger call, by the methods installed on
  \<open>res\<close>, by \<open>destroy\<close> and by the streaming marks; every synchronous method then keeps it.
  \<open>asyncRel R\<close>: \<open>R\<close> is also kept by the bookkeeping of \<open>coordinatedTermination\<close>.
\<close>

definition syncRel :: "env \<Rightarrow> (ResponseState \<Rightarrow> ResponseState \<Rightarrow> bool) \<Rightarrow> bool" where
  "syncRel E R =
     (reflp R \<and> transp R \<and>
      (\<forall>l msg. keeps R (log E l msg)) \<and>
      (\<forall>st h. keeps R (res_writeHead E st h)) \<and>
      (\<forall>c. keeps R (res_write E c)) \<and>
      (\<forall>c. keeps R (res_end E c)) \<and>
      (\<forall>st h. keeps R (res_safeWriteHead E st h)) \<and>
      (\<forall>c. keeps R (res_safeWrite E c)) \<and>
      (\<forall>c. keeps R (res_safeEnd E c)) \<and>
      keeps R (destroy E) \<and>
      (\<forall>s. R s (markStreamingStarted s)) \<and>
      (\<forall>s. R s (markStreamingCompleted s)))"

definition asyncRel :: "(ResponseState \<Rightarrow> ResponseState \<Rightarrow> bool) \<Rightarrow> bool" where
  "asyncRel R =
     ((\<forall>s b. R s (s\<lparr>isTerminationInProgress := b\<rparr>)) \<and>
      (\<forall>s p. R s (s\<lparr>terminationLock := p\<rparr>)) \<and>
      (\<forall>s r. R s (s\<lparr>terminationReason := r\<rparr>)) \<and>
      (\<forall>s r. R s (emit (PerformBegin r) s)) \<and>
      (\<forall>s. R s (emit PerformEnd s)) \<and>
      (\<forall>s i r. R s (emit (CallSettled i r) s)))"

text \<open>
  The terminal write of the transport is reached at most once, and only on a response
  marked as ended.
\<close>

definition endInv :: "ResponseState \<Rightarrow> bool" where
  "endInv s = (endCalls s \<le> (if isEnded s then 1 else 0))"

definition endKept :: "ResponseState \<Rightarrow> ResponseState \<Rightarrow> bool" where
  "endKept s s' = (endInv s \<longrightarrow> endInv s')"

text \<open>
  What a synchronous method may do: set sticky flags, leave the termination lock, its flag
  and its reason alone, and append calls of the logger, the transport and the socket to the history.
\<close>

fun plain :: "event \<Rightarrow> bool" where
  "plain (PerformBegin _) = False"
| "plain PerformEnd = False"
| "plain (CallSettled _ _) = False"
| "plain _ = True"

definition quiet :: "ResponseState \<Rightarrow> ResponseState \<Rightarrow> bool" where
  "quiet s s' =
     (sticky s s' \<and>
      isTerminationInProgress s' = isTerminationInProgress s \<and>
      terminationLock s' = terminationLock s \<and>
      terminationReason s' = terminationReason s \<and>
      (\<exists>ext. history s' = history s @ ext \<and> list_all plain ext))"

definition terminated :: "ResponseState \<Rightarrow> bool" where
  "terminated s = (isEnded s \<or> isDestroyed s)"

section \<open>Concurrent calls of \<open>coordinatedTermination\<close>\<close>

text \<open>
  \<open>N\<close> calls made concurrently: each is made, and so runs to its \<open>await\<close>, before any of
  them is resumed; the event loop then resumes them in the order \<open>order\<close> (first in, first
  out in JavaScript, that is \<open>[0..<N]\<close>; any other order is allowed here).
\<close>

definition concurrentTermination ::
  "env \<Rightarrow> string list \<Rightarrow> nat list \<Rightarrow> ResponseState \<Rightarrow> system" where
  "concurrentTermination E reasons order s =
     run E (map CoordinatedTermination reasons @ map Resume order) (newSystem s)"

definition newEvents :: "ResponseState \<Rightarrow> ResponseState \<Rightarrow> event list" where
  "newEvents s s' = drop (length (history s)) (history s')"

definition untilPerformEnd :: "event list \<Rightarrow> event list" where
  "untilPerformEnd evs = takeWhile (\<lambda>e. e \<noteq> PerformEnd) evs"

fun awaited :: "suspended \<Rightarrow> promise" where
  "awaited (AwaitJoin p) = p"
| "awaited (AwaitDrive r p) = p"

fun isDrive :: "suspended \<Rightarrow> bool" where
  "isDrive (AwaitDrive r p) = True"
| "isDrive (AwaitJoin p) = False"

text \<open>
  Once a termination episode has started, a call is suspended or a call has settled, the
  response is ended or destroyed.
\<close>

definition sysInv :: "system \<Rightarrow> bool" where
  "sysInv sys =
     ((isTerminationInProgress (rstate sys) \<or> suspendedCalls sys \<noteq> [] \<or>
       filter isCallSettled (history (rstate sys)) \<noteq> [])
      \<longrightarrow> terminated (rstate sys))"

text \<open>A logger that fails on one debug message of \<open>_performTermination\<close> and on nothing else.\<close>

definition failingDebugEnv :: env where
  "failingDebugEnv =
     \<lparr> logger = (\<lambda>l msg. if msg = ''Ending response during coordinated termination''
                         then Some (Exn ''logger failed'') else None),
       originalWriteHead = (\<lambda>status hdrs h. None),
       originalWrite = (\<lambda>chunk h. Inr True),
       originalEnd = (\<lambda>chunk h. None),
       socket = Some (\<lambda>h. None) \<rparr>"

text \<open>
  Two handlers that send headers and then fail: one throws an Error object, the other
  throws \<open>null\<close>.
\<close>

definition failingHandler :: "ResponseState \<Rightarrow> (thrown + unit) \<times> ResponseState" where
  "failingHandler s =
     throw (Thrown (Exn ''upstream failed'')) (snd (safeWriteHeaders quietEnv 200 [] s))"

definition nullHandler :: "ResponseState \<Rightarrow> (thrown + unit) \<times> ResponseState" where
  "nullHandler s = throw Nullish (snd (safeWriteHeaders quietEnv 200 [] s))"

text \<open>
  The suspended calls of a system are in order: each awaits a fulfilled promise, their
  numbers are distinct and below the next number, and while the termination flag is set
  the call that drives the episode is among them.
\<close>

definition ready :: "system \<Rightarrow> bool" where
  "ready sys =
     (list_all (\<lambda>p. awaited (snd p) = Fulfilled) (suspendedCalls sys) \<and>
      distinct (map fst (suspendedCalls sys)) \<and>
      (\<forall>p \<in> set (suspendedCalls sys). fst p < nextCall sys) \<and>
      (isTerminationInProgress (rstate sys) \<longrightarrow>
         (\<exists>p \<in> set (suspendedCalls sys). isDrive (snd p))))"

section \<open>ResponseManager\<close>

text \<open>
  An end-callback is a closure without arguments: user code. What it may do to the manager
  is written as the list of its steps, run in order: call \<open>res.end\<close> again (the re-entrant
  call the \<open>isEnded\<close> flag is there for), call \<open>res.writeHead\<close>, register a further callback
  with \<open>onEnd\<close>, throw any value. A step that throws ends the callback. The number of a
  callback only names it in the history. A callback is a finite tree: a closure that
  registers itself again on every run, which keeps the loop of \<open>end\<close> running forever, is
  not a value of this type.
\<close>

datatype callback = Callback (cb_id: nat) (cb_steps: "cbstep list")
and cbstep =
    CallEnd "string option" "string option"
  | CallWriteHead nat
  | CallOnEnd callback
  | Throw thrown

text \<open>
  The history of a manager: logger calls, the start of each callback together with the
  value \<open>isEnded\<close> has at that moment, and the calls that reach the transport's own \<open>end\<close>
  and \<open>writeHead\<close>.
\<close>

datatype mevent =
    MLogged level string
  | CallbackRun nat bool
  | RealEnd "string option" "string option"
  | RealWriteHead nat

text \<open>
  The fields of the class (\<open>rm_isEnded\<close> is its \<open>isEnded\<close>), the transport's own
  \<open>res.headersSent\<close>, and the history. The class never writes \<open>res.headersSent\<close>, and it
  reads it only in \<open>areHeadersSent\<close>, after its own flag, which \<open>writeHead\<close> sets.
\<close>

record ResponseManager =
  rm_isEnded :: bool
  endCallbacks :: "callback list"
  headersSent :: bool
  res_headersSent :: bool
  rm_history :: "mevent list"

record menv =
  rm_logger :: "level \<Rightarrow> string \<Rightarrow> exn option"
  rm_originalEnd :: "string option \<Rightarrow> string option \<Rightarrow> mevent list \<Rightarrow> exn option"
  rm_originalWriteHead :: "nat \<Rightarrow> mevent list \<Rightarrow> exn option"


definition newResponseManager :: "bool \<Rightarrow> ResponseManager" where
  "newResponseManager transportSent =
     \<lparr> rm_isEnded = False, endCallbacks = [], headersSent = False,
       res_headersSent = transportSent, rm_history = [] \<rparr>"

definition memit :: "mevent \<Rightarrow> ResponseManager \<Rightarrow> ResponseManager" where
  "memit ev m = m\<lparr>rm_history := rm_history m @ [ev]\<rparr>"

definition mlog ::
  "menv \<Rightarrow> level \<Rightarrow> string \<Rightarrow> ResponseManager \<Rightarrow> (exn + unit) \<times> ResponseManager" where
  "mlog E l msg m =
     ((case rm_logger E l msg of None \<Rightarrow> Inr () | Some e \<Rightarrow> Inl e), memit (MLogged l msg) m)"

definition callRealEnd ::
  "menv \<Rightarrow> string option \<Rightarrow> string option \<Rightarrow> ResponseManager \<Rightarrow>
     (thrown + unit) \<times> ResponseManager" where
  "callRealEnd E chunk encoding m =
     ((case rm_originalEnd E chunk encoding (rm_history m) of
         None \<Rightarrow> Inr () | Some e \<Rightarrow> Inl (Thrown e)),
      memit (RealEnd chunk encoding) m)"

definition onEnd :: "callback \<Rightarrow> ResponseManager \<Rightarrow> ResponseManager" where
  "onEnd cb m = m\<lparr>endCallbacks := endCallbacks m @ [cb]\<rparr>"

definition hasEnded :: "ResponseManager \<Rightarrow> bool" where
  "hasEnded m = rm_isEnded m"

definition areHeadersSent :: "ResponseManager \<Rightarrow> bool" where
  "areHeadersSent m = (headersSent m \<or> res_headersSent m)"

text \<open>The shim installed by \<open>_trackHeaders\<close>: it sets the flag, then calls the transport.\<close>

definition rm_writeHead ::
  "menv \<Rightarrow> nat \<Rightarrow> ResponseManager \<Rightarrow> (exn + unit) \<times> ResponseManager" where
  "rm_writeHead E status m =
     (let m1 = m\<lparr>headersSent := True\<rparr>
      in ((case rm_originalWriteHead E status (rm_history m1) of
             None \<Rightarrow> Inr () | Some e \<Rightarrow> Inl e),
          memit (RealWriteHead status) m1))"

text \<open>
  The function installed by \<open>_overrideEnd\<close> (\<open>rm_end\<close>), its \<open>for ... of\<close> loop over the
  callbacks (\<open>runCallbacks\<close>) and the steps of one callback (\<open>runSteps\<close>). The loop walks
  the array \<open>endCallbacks\<close> itself by index, so a callback registered while the loop runs
  is reached too. The catch block of the loop reads \<open>error.message\<close> to build the log
  record, which throws a TypeError on \<open>null\<close> and \<open>undefined\<close>; then it logs; then it
  rethrows when \<open>areHeadersSent()\<close> is false and goes on otherwise.

  A callback may call \<open>end\<close> again and may register callbacks, so the three functions are
  mutually recursive and the loop has no bound of its own; the first argument bounds the
  number of nested calls and loop rounds (\<open>None\<close>: the bound was too small).
\<close>

fun rm_end ::
  "nat \<Rightarrow> menv \<Rightarrow> string option \<Rightarrow> string option \<Rightarrow> ResponseManager \<Rightarrow>
     ((thrown + unit) \<times> ResponseManager) option"
and runCallbacks ::
  "nat \<Rightarrow> menv \<Rightarrow> nat \<Rightarrow> ResponseManager \<Rightarrow> ((thrown + unit) \<times> ResponseManager) option"
and runSteps ::
  "nat \<Rightarrow> menv \<Rightarrow> cbstep list \<Rightarrow> ResponseManager \<Rightarrow>
     ((thrown + unit) \<times> ResponseManager) option"
where
  "rm_end 0 E chunk encoding m = None"
| "rm_end (Suc n) E chunk encoding m =
     (if rm_isEnded m then Some (raised (mlog E LDebug ''Response already ended, skipping'') m)
      else case runCallbacks n E 0 (m\<lparr>rm_isEnded := True\<rparr>) of
             None \<Rightarrow> None
           | Some (Inl e, m2) \<Rightarrow> Some (Inl e, m2)
           | Some (Inr _, m2) \<Rightarrow>
               Some (if headersSent m2 then callRealEnd E None None m2
                     else callRealEnd E chunk encoding m2))"
| "runCallbacks 0 E i m = None"
| "runCallbacks (Suc n) E i m =
     (if i < length (endCallbacks m)
      then case runSteps n E (cb_steps (endCallbacks m ! i))
                  (memit (CallbackRun (cb_id (endCallbacks m ! i)) (rm_isEnded m)) m) of
             None \<Rightarrow> None
           | Some (Inr _, m1) \<Rightarrow> runCallbacks n E (Suc i) m1
           | Some (Inl error, m1) \<Rightarrow>
               (case messageOf error of
                  Inl typeError \<Rightarrow> Some (Inl (Thrown typeError), m1)
                | Inr msg \<Rightarrow>
                    (case mlog E LError ''End callback failed'' m1 of
                       (Inl e', m2) \<Rightarrow> Some (Inl (Thrown e'), m2)
                     | (Inr _, m2) \<Rightarrow>
                         if \<not> areHeadersSent m2 then Some (Inl error, m2)
                         else runCallbacks n E (Suc i) m2))
      else Some (Inr (), m))"
| "runSteps n E [] m = Some (Inr (), m)"
| "runSteps n E (CallEnd chunk encoding # steps) m =
     (case rm_end n E chunk encoding m of
        None \<Rightarrow> None
      | Some (Inl e, m1) \<Rightarrow> Some (Inl e, m1)
      | Some (Inr _, m1) \<Rightarrow> runSteps n E steps m1)"
| "runSteps n E (CallWriteHead status # steps) m =
     (case rm_writeHead E status m of
        (Inl e, m1) \<Rightarrow> Some (Inl (Thrown e), m1)
      | (Inr _, m1) \<Rightarrow> runSteps n E steps m1)"
| "runSteps n E (CallOnEnd cb # steps) m = runSteps n E steps (onEnd cb m)"
| "runSteps n E (Throw v # steps) m = Some (Inl v, m)"









text \<open>Sample collaborators and callbacks.\<close>

definition quietMenv :: menv where
  "quietMenv =
     \<lparr> rm_logger = (\<lambda>l msg. None),
       rm_originalEnd = (\<lambda>chunk encoding h. None),
       rm_originalWriteHead = (\<lambda>status h. None) \<rparr>"

definition cleanupCallback :: callback where
  "cleanupCallback = Callback 0 [CallEnd None None]"

definition failingCallback :: callback where
  "failingCallback = Callback 1 [Throw (Thrown (Exn ''callback failed''))]"

definition metricsCallback :: callback where
  "metricsCallback = Callback 2 []"

definition nullCallback :: callback where
  "nullCallback = Callback 3 [Throw Nullish]"

definition lateCallback :: callback where
  "lateCallback = Callback 4 [CallWriteHead 200, CallOnEnd metricsCallback]"

section \<open>Proof tools\<close>

lemmas flow_defs = ret_def throw_def andThen_def tryCatch_def
lemmas res_defs = emit_def log_def callOriginalWriteHead_def callOriginalWrite_def callOriginalEnd_def
  callSocketDestroy_def res_writeHead_def res_write_def markEnded_def res_end_def res_safeWriteHead_def
  res_safeWrite_def res_safeEnd_def canWrite_def canWriteHeaders_def markStreamingStarted_def
  markStreamingCompleted_def
lemmas safe_defs = safeWriteHeaders_def safeWrite_def safeEnd_def destroy_def

lemma keepsD: "keeps R m \<Longrightarrow> R s (snd (m s))"
  by (simp add: keeps_def)

lemma keeps_ret: "reflp R \<Longrightarrow> keeps R (ret a)"
  by (simp add: keeps_def ret_def reflp_def)

lemma keeps_throw: "reflp R \<Longrightarrow> keeps R (throw e)"
  by (simp add: keeps_def throw_def reflp_def)

lemma keeps_andThen:
  assumes "transp R" and "keeps R m" and "\<And>a. keeps R (f a)"
  shows "keeps R (andThen m f)"
  unfolding keeps_def
proof
  fix s
  obtain r s1 where ms: "m s = (r, s1)" by (cases "m s")
  have 1: "R s s1" using keepsD [OF assms(2), of s] ms by simp
  show "R s (snd (andThen m f s))"
  proof (cases r)
    case (Inl e)
    with ms 1 show ?thesis by (simp add: andThen_def)
  next
    case (Inr a)
    have "R s1 (snd (f a s1))" using keepsD [OF assms(3)] .
    with 1 assms(1) have "R s (snd (f a s1))" by (blast dest: transpD)
    with ms Inr show ?thesis by (simp add: andThen_def)
  qed
qed

lemma keeps_tryCatch:
  assumes "transp R" and "keeps R m" and "\<And>e. keeps R (h e)"
  shows "keeps R (tryCatch m h)"
  unfolding keeps_def
proof
  fix s
  obtain r s1 where ms: "m s = (r, s1)" by (cases "m s")
  have 1: "R s s1" using keepsD [OF assms(2), of s] ms by simp
  show "R s (snd (tryCatch m h s))"
  proof (cases r)
    case (Inr a)
    with ms 1 show ?thesis by (simp add: tryCatch_def)
  next
    case (Inl e)
    have "R s1 (snd (h e s1))" using keepsD [OF assms(3)] .
    with 1 assms(1) have "R s (snd (h e s1))" by (blast dest: transpD)
    with ms Inl show ?thesis by (simp add: tryCatch_def)
  qed
qed

lemma keeps_if:
  assumes "keeps R m" and "keeps R n"
  shows "keeps R (\<lambda>s. if c s then m s else n s)"
  using assms by (simp add: keeps_def)

lemma keeps_after:
  assumes "transp R" and "\<And>s. R s (g s)" and "keeps R m"
  shows "keeps R (\<lambda>s. m (g s))"
  unfolding keeps_def using assms by (metis keepsD transpD)

lemma syncRelD:
  assumes "syncRel E R"
  shows "reflp R" and "transp R" and "keeps R (log E l msg)"
    and "keeps R (res_writeHead E st h)" and "keeps R (res_write E c)"
    and "keeps R (res_end E co)" and "keeps R (res_safeWriteHead E st h)"
    and "keeps R (res_safeWrite E c)" and "keeps R (res_safeEnd E co)"
    and "keeps R (destroy E)" and "R s (markStreamingStarted s)"
    and "R s (markStreamingCompleted s)"
  using assms by (simp_all add: syncRel_def)

lemma asyncRelD:
  assumes "asyncRel R"
  shows "R s (s\<lparr>isTerminationInProgress := b\<rparr>)" and "R s (s\<lparr>terminationLock := p\<rparr>)"
    and "R s (s\<lparr>terminationReason := r\<rparr>)" and "R s (emit (PerformBegin reason) s)"
    and "R s (emit PerformEnd s)" and "R s (emit (CallSettled i x) s)"
  using assms by (simp_all add: asyncRel_def)

lemma keeps_safeWriteHeaders: "syncRel E R \<Longrightarrow> keeps R (safeWriteHeaders E st h)"
  unfolding safeWriteHeaders_def
  by (intro keeps_tryCatch keeps_andThen keeps_if keeps_ret) (simp_all add: syncRelD)

lemma keeps_safeWrite: "syncRel E R \<Longrightarrow> keeps R (safeWrite E c)"
  unfolding safeWrite_def
  by (intro keeps_tryCatch keeps_andThen keeps_if keeps_ret) (simp_all add: syncRelD)

lemma keeps_safeEnd: "syncRel E R \<Longrightarrow> keeps R (safeEnd E c)"
  unfolding safeEnd_def
  by (intro keeps_tryCatch keeps_andThen keeps_if keeps_ret) (simp_all add: syncRelD)

lemma keeps_writeDone: "syncRel E R \<Longrightarrow> keeps R (writeDone E)"
  unfolding writeDone_def
  by (intro keeps_tryCatch keeps_andThen keeps_if keeps_ret keeps_safeWrite)
     (simp_all add: syncRelD)

lemma keeps_writeEvent:
  assumes "syncRel E R"
  shows "keeps R (writeEvent E j t)"
proof -
  have 1: "keeps R (\<lambda>s. (j, s))"
    using syncRelD(1) [OF assms] by (simp add: keeps_def reflp_def)
  show ?thesis
    unfolding writeEvent_def Let_def
    by (intro keeps_tryCatch keeps_andThen keeps_if keeps_ret keeps_safeWrite 1)
       (simp_all add: syncRelD [OF assms] assms)
qed

lemma keeps_performTermination_body:
  assumes "syncRel E R"
  shows "keeps R (performTermination_body E reason)"
proof -
  note tr = syncRelD(2) [OF assms] and rf = syncRelD(1) [OF assms]
  have lg: "keeps R (log E l msg)" for l msg by (rule syncRelD(3) [OF assms])
  have sc: "R s (s\<lparr>streamingCompleted := True\<rparr>)" for s
    using syncRelD(12) [OF assms, of s] by (simp add: markStreamingCompleted_def)
  show ?thesis
    unfolding performTermination_body_def
    by (intro keeps_tryCatch keeps_andThen keeps_if keeps_ret keeps_throw
          keeps_after [where g = "\<lambda>s. s\<lparr>streamingCompleted := True\<rparr>"]
          keeps_safeEnd [OF assms] tr rf lg sc)
qed

lemma keeps_performTermination:
  assumes "syncRel E R" and "asyncRel R"
  shows "R s (snd (performTermination E reason s))"
proof -
  let ?s0 = "emit (PerformBegin reason) s"
  obtain r s1 where b: "performTermination_body E reason ?s0 = (r, s1)"
    by (cases "performTermination_body E reason ?s0")
  have "R ?s0 s1"
    using keepsD [OF keeps_performTermination_body [OF assms(1)], of ?s0 reason] b by simp
  moreover have "R s ?s0" by (rule asyncRelD [OF assms(2)])
  moreover have "R s1 (emit PerformEnd s1)" by (rule asyncRelD [OF assms(2)])
  ultimately have "R s (emit PerformEnd s1)"
    using syncRelD(2) [OF assms(1)] by (blast dest: transpD)
  then show ?thesis
    by (simp add: performTermination_def b split: sum.splits)
qed

lemma keeps_start:
  assumes "syncRel E R" and "asyncRel R"
  shows "keeps R (coordinatedTermination_start E reason)"
  unfolding keeps_def
proof
  fix s
  note tr = syncRelD(2) [OF assms(1), THEN transpD]
  show "R s (snd (coordinatedTermination_start E reason s))"
  proof (cases "isTerminationInProgress s")
    case True
    have "R s (snd (log E LDebug ''Termination already in progress, waiting'' s))"
      by (rule keepsD [OF syncRelD(3) [OF assms(1)]])
    with True show ?thesis
      by (auto simp: coordinatedTermination_start_def flow_defs split: prod.splits sum.splits)
  next
    case False
    let ?s1 = "s\<lparr>isTerminationInProgress := True, terminationReason := Some reason\<rparr>"
    obtain r s2 where l: "log E LDebug ''Starting coordinated termination'' ?s1 = (r, s2)"
      by (cases "log E LDebug ''Starting coordinated termination'' ?s1")
    obtain p s3 where pt: "performTermination E reason s2 = (p, s3)"
      by (cases "performTermination E reason s2")
    have "R s (s\<lparr>isTerminationInProgress := True\<rparr>)" by (rule asyncRelD [OF assms(2)])
    moreover have "R (s\<lparr>isTerminationInProgress := True\<rparr>) ?s1"
      using asyncRelD(3) [OF assms(2), of "s\<lparr>isTerminationInProgress := True\<rparr>" "Some reason"]
      by simp
    ultimately have 1: "R s ?s1" by (rule tr)
    have "R ?s1 s2"
      using keepsD [OF syncRelD(3) [OF assms(1)], of ?s1 LDebug "''Starting coordinated termination''"] l
      by simp
    with 1 have 2: "R s s2" by (rule tr)
    have "R s2 s3" using keeps_performTermination [OF assms, of s2 reason] pt by simp
    with 2 have "R s s3" by (rule tr)
    moreover have "R s3 (s3\<lparr>terminationLock := p\<rparr>)" by (rule asyncRelD [OF assms(2)])
    ultimately have 3: "R s (s3\<lparr>terminationLock := p\<rparr>)" by (rule tr)
    show ?thesis
      using False 2 3
      by (auto simp: coordinatedTermination_start_def flow_defs l pt split: sum.splits)
  qed
qed

lemma keeps_resume:
  assumes "syncRel E R" and "asyncRel R"
  shows "keeps R (coordinatedTermination_resume E k)"
  unfolding keeps_def
proof
  fix s
  note tr = syncRelD(2) [OF assms(1), THEN transpD]
  have rf: "R s s" using syncRelD(1) [OF assms(1)] by (simp add: reflp_def)
  obtain r1 s1 where l: "log E LWarn ''Error during coordinated termination'' s = (r1, s1)"
    by (cases "log E LWarn ''Error during coordinated termination'' s")
  have lg: "R s s1"
    using keepsD [OF syncRelD(3) [OF assms(1)], of s LWarn "''Error during coordinated termination''"] l
    by simp
  have fl: "R t (t\<lparr>isTerminationInProgress := False\<rparr>)" for t
    by (rule asyncRelD [OF assms(2)])
  have "R s (s1\<lparr>isTerminationInProgress := False\<rparr>)"
    using lg fl by (rule tr)
  with rf fl show "R s (snd (coordinatedTermination_resume E k s))"
    by (auto simp: coordinatedTermination_resume_def await_def flow_defs l
             split: suspended.splits promise.splits)
qed

lemma keeps_exec:
  assumes "syncRel E R" and "asyncRel R"
  shows "R (rstate sys) (rstate (exec E c sys))"
proof (cases c)
  case (CoordinatedTermination reason)
  obtain r s1 where st: "coordinatedTermination_start E reason (rstate sys) = (r, s1)"
    by (cases "coordinatedTermination_start E reason (rstate sys)")
  have 1: "R (rstate sys) s1"
    using keepsD [OF keeps_start [OF assms], of "rstate sys" reason] st by simp
  moreover have "R s1 (emit (CallSettled i x) s1)" for i x by (rule asyncRelD [OF assms(2)])
  ultimately have "R (rstate sys) (emit (CallSettled i x) s1)" for i x
    using syncRelD(2) [OF assms(1)] by (blast dest: transpD)
  with 1 show ?thesis
    by (simp add: CoordinatedTermination st split: sum.splits)
next
  case (Resume i)
  show ?thesis
  proof (cases "map_of (suspendedCalls sys) i")
    case None
    then show ?thesis using syncRelD(1) [OF assms(1)] by (simp add: Resume reflp_def)
  next
    case (Some k)
    obtain r s1 where st: "coordinatedTermination_resume E k (rstate sys) = (r, s1)"
      by (cases "coordinatedTermination_resume E k (rstate sys)")
    have "R (rstate sys) s1"
      using keepsD [OF keeps_resume [OF assms], of "rstate sys" k] st by simp
    moreover have "R s1 (emit (CallSettled i x) s1)" for x by (rule asyncRelD [OF assms(2)])
    ultimately have "R (rstate sys) (emit (CallSettled i x) s1)" for x
      using syncRelD(2) [OF assms(1)] by (blast dest: transpD)
    then show ?thesis by (simp add: Resume Some st)
  qed
qed (simp_all add: syncRelD [OF assms(1)]
       keepsD [OF syncRelD(4) [OF assms(1)]] keepsD [OF syncRelD(5) [OF assms(1)]]
       keepsD [OF syncRelD(6) [OF assms(1)]] keepsD [OF syncRelD(7) [OF assms(1)]]
       keepsD [OF syncRelD(8) [OF assms(1)]] keepsD [OF syncRelD(9) [OF assms(1)]]
       keepsD [OF syncRelD(10) [OF assms(1)]]
       keepsD [OF keeps_safeWriteHeaders [OF assms(1)]] keepsD [OF keeps_safeWrite [OF assms(1)]]
       keepsD [OF keeps_safeEnd [OF assms(1)]] keepsD [OF keeps_writeEvent [OF assms(1)]]
       keepsD [OF keeps_writeDone [OF assms(1)]])

lemma keeps_run:
  assumes "syncRel E R" and "asyncRel R"
  shows "R (rstate sys) (rstate (run E cs sys))"
proof (induction cs arbitrary: sys)
  case Nil
  show ?case using syncRelD(1) [OF assms(1)] by (simp add: run_def reflp_def)
next
  case (Cons c cs)
  have "R (rstate (exec E c sys)) (rstate (run E cs (exec E c sys)))" by (rule Cons.IH)
  with keeps_exec [OF assms, of sys c] show ?case
    using syncRelD(2) [OF assms(1)] by (auto simp: run_def dest: transpD)
qed

subsection \<open>Sticky flags\<close>

lemma sticky_syncRel: "syncRel E sticky"
  unfolding syncRel_def
  by (auto simp: keeps_def sticky_def reflp_def transp_def destroy_def res_defs flow_defs Let_def
           split: sum.splits option.splits prod.splits)

lemma sticky_asyncRel: "asyncRel sticky"
  by (simp add: asyncRel_def sticky_def emit_def)

lemma sticky_run: "sticky (rstate sys) (rstate (run E cs sys))"
  by (rule keeps_run [OF sticky_syncRel sticky_asyncRel])

subsection \<open>The terminal write is reached at most once\<close>

lemma endKept_syncRel: "syncRel E endKept"
proof -
  have 1: "reflp endKept" by (simp add: reflp_def endKept_def)
  have 2: "transp endKept" by (simp add: transp_def endKept_def)
  have 3: "keeps endKept (log E l msg)" for l msg
    by (simp add: keeps_def log_def endKept_def endInv_def endCalls_def emit_def)
  have 4: "keeps endKept (res_writeHead E st h)" for st h
    by (auto simp: keeps_def res_writeHead_def callOriginalWriteHead_def log_def flow_defs
                   endKept_def endInv_def endCalls_def emit_def split: if_splits option.splits)
  have 5: "keeps endKept (res_write E c)" for c
    by (auto simp: keeps_def res_write_def callOriginalWrite_def log_def flow_defs
                   endKept_def endInv_def endCalls_def emit_def split: if_splits option.splits)
  have 6: "keeps endKept (res_end E c)" for c
    by (auto simp: keeps_def res_end_def callOriginalEnd_def markEnded_def log_def flow_defs
                   endKept_def endInv_def endCalls_def emit_def Let_def split: if_splits option.splits)
  have 7: "keeps endKept (res_safeWriteHead E st h)" for st h
    by (auto simp: keeps_def res_safeWriteHead_def callOriginalWriteHead_def log_def flow_defs
                   endKept_def endInv_def endCalls_def emit_def split: if_splits option.splits)
  have 8: "keeps endKept (res_safeWrite E c)" for c
    by (auto simp: keeps_def res_safeWrite_def callOriginalWrite_def log_def flow_defs
                   endKept_def endInv_def endCalls_def emit_def split: if_splits option.splits)
  have 9: "keeps endKept (res_safeEnd E c)" for c
    by (auto simp: keeps_def res_safeEnd_def callOriginalEnd_def markEnded_def log_def flow_defs
                   endKept_def endInv_def endCalls_def emit_def Let_def split: if_splits option.splits)
  have 10: "keeps endKept (destroy E)"
    by (auto simp: keeps_def destroy_def callSocketDestroy_def log_def flow_defs Let_def
                   endKept_def endInv_def endCalls_def emit_def split: option.splits if_splits)
  have 11: "endKept s (markStreamingStarted s)" "endKept s (markStreamingCompleted s)" for s
    by (simp_all add: markStreamingStarted_def markStreamingCompleted_def endKept_def endInv_def
          endCalls_def)
  show ?thesis
    unfolding syncRel_def using 1 2 3 4 5 6 7 8 9 10 11 by blast
qed

lemma endKept_asyncRel: "asyncRel endKept"
  by (simp add: asyncRel_def endKept_def endInv_def endCalls_def emit_def)

lemma endInv_run: "endInv (rstate sys) \<Longrightarrow> endInv (rstate (run E cs sys))"
  using keeps_run [OF endKept_syncRel endKept_asyncRel, of sys E cs] by (simp add: endKept_def)

subsection \<open>Synchronous methods are quiet\<close>

lemma quiet_refl: "quiet s s"
  by (simp add: quiet_def sticky_def)

lemma quiet_trans: "quiet s t \<Longrightarrow> quiet t u \<Longrightarrow> quiet s u"
  by (auto simp: quiet_def sticky_def)

lemma quiet_emit: "plain ev \<Longrightarrow> quiet s (emit ev s)"
  by (simp add: quiet_def sticky_def emit_def)

lemma quiet_syncRel: "syncRel E quiet"
proof -
  have q: "quiet s (s\<lparr>history := history s @ [ev]\<rparr>)" if "plain ev" for s ev
    using quiet_emit [OF that, of s] by (simp add: emit_def)
  have f: "quiet s (s\<lparr>isHeadersSent := True\<rparr>)" "quiet s (s\<lparr>isEnded := True\<rparr>)"
    "quiet s (s\<lparr>isDestroyed := True, isEnded := True\<rparr>)"
    "quiet s (s\<lparr>streamingCompleted := b\<rparr>)" "quiet s (s\<lparr>isStreaming := b\<rparr>)"
    "quiet s (s\<lparr>isEnded := True, streamingCompleted := True\<rparr>)" for s b
    by (simp_all add: quiet_def sticky_def)
  have t: "quiet s t \<Longrightarrow> quiet t u \<Longrightarrow> quiet s u" for s t u by (rule quiet_trans)
  have 1: "reflp quiet" by (simp add: reflp_def quiet_refl)
  have 2: "transp quiet" by (auto simp: transp_def intro: quiet_trans)
  have 3: "keeps quiet (log E l msg)" for l msg
    by (simp add: keeps_def log_def quiet_emit)
  have e: "quiet s (emit ev t)" if "quiet s t" "plain ev" for s t ev
    using that quiet_emit quiet_trans by blast
  have 4: "keeps quiet (res_writeHead E st h)" for st h
    by (auto simp: keeps_def res_writeHead_def callOriginalWriteHead_def log_def flow_defs
             intro!: e f quiet_refl split: option.splits)
  have 5: "keeps quiet (res_write E c)" for c
    by (auto simp: keeps_def res_write_def callOriginalWrite_def log_def flow_defs
             intro!: e f quiet_refl split: option.splits)
  have m: "quiet s (markEnded s)" for s
    by (simp add: markEnded_def quiet_def sticky_def Let_def)
  have 6: "keeps quiet (res_end E c)" for c
    by (auto simp: keeps_def res_end_def callOriginalEnd_def log_def flow_defs
             intro!: e m quiet_refl split: option.splits)
  have 7: "keeps quiet (res_safeWriteHead E st h)" for st h
    by (auto simp: keeps_def res_safeWriteHead_def callOriginalWriteHead_def log_def flow_defs
             intro!: e f quiet_refl split: option.splits)
  have 8: "keeps quiet (res_safeWrite E c)" for c
    by (auto simp: keeps_def res_safeWrite_def callOriginalWrite_def log_def flow_defs
             intro!: e f quiet_refl split: option.splits)
  have 9: "keeps quiet (res_safeEnd E c)" for c
    by (auto simp: keeps_def res_safeEnd_def callOriginalEnd_def log_def flow_defs
             intro!: e m quiet_refl split: option.splits)
  have 10: "keeps quiet (destroy E)"
    by (auto simp: keeps_def destroy_def callSocketDestroy_def log_def flow_defs Let_def
             intro!: e f quiet_refl split: option.splits)
  have 11: "quiet s (markStreamingStarted s)" "quiet s (markStreamingCompleted s)" for s
    by (simp_all add: markStreamingStarted_def markStreamingCompleted_def f)
  show ?thesis
    unfolding syncRel_def using 1 2 3 4 5 6 7 8 9 10 11 by blast
qed

section \<open>Write after close\<close>

lemma safeWrite_closed: "\<not> canWrite s \<Longrightarrow> safeWrite E chunk s = (Inr False, s)"
  by (simp add: safeWrite_def flow_defs)

lemma safeWriteHeaders_closed:
  "\<not> canWriteHeaders s \<Longrightarrow> safeWriteHeaders E status hdrs s = (Inr False, s)"
  by (simp add: safeWriteHeaders_def flow_defs)

text \<open>
  C7. Once \<open>isEnded\<close> is true it stays true whatever is called afterwards, and in every
  such later state \<open>safeWrite\<close> and \<open>safeWriteHeaders\<close> return \<open>false\<close>, do not throw and
  leave the state as it is: neither the transport nor the logger is reached, so no failure
  of theirs can show.
\<close>

theorem write_after_close_is_safe:
  assumes "isEnded (rstate sys)"
  shows "isEnded (rstate (run E cs sys)) \<and>
         safeWrite E chunk (rstate (run E cs sys)) = (Inr False, rstate (run E cs sys)) \<and>
         safeWriteHeaders E status hdrs (rstate (run E cs sys)) = (Inr False, rstate (run E cs sys))"
proof -
  have e: "isEnded (rstate (run E cs sys))"
    using sticky_run [of sys E cs] assms by (simp add: sticky_def)
  then show ?thesis
    by (simp add: safeWrite_closed safeWriteHeaders_closed canWrite_def canWriteHeaders_def)
qed

theorem write_after_close_is_safe_witness:
  "isEnded (rstate (newSystem (newResponseState\<lparr>isEnded := True\<rparr>))) \<and>
   safeWrite hostileEnv ''late''
     (rstate (run hostileEnv [SafeWrite ''a'', SafeWriteHeaders 200 [], SafeWrite ''b'']
        (newSystem (newResponseState\<lparr>isEnded := True\<rparr>)))) =
   (Inr False,
    rstate (run hostileEnv [SafeWrite ''a'', SafeWriteHeaders 200 [], SafeWrite ''b'']
        (newSystem (newResponseState\<lparr>isEnded := True\<rparr>))))"
  using write_after_close_is_safe
    [where sys = "newSystem (newResponseState\<lparr>isEnded := True\<rparr>)" and E = hostileEnv
       and cs = "[SafeWrite ''a'', SafeWriteHeaders 200 [], SafeWrite ''b'']"
       and chunk = "''late''"]
  by (simp add: newSystem_def)

section \<open>\<open>destroy\<close>\<close>

lemma socketCloses_destroy:
  "socketCloses (snd (destroy E s)) = socketCloses s + (case socket E of None \<Rightarrow> 0 | Some d \<Rightarrow> 1)"
  by (auto simp: socketCloses_def destroy_def callSocketDestroy_def log_def emit_def flow_defs
                 Let_def
           split: option.splits)

lemma destroy_flags: "isDestroyed (snd (destroy E s)) \<and> isEnded (snd (destroy E s))"
  by (auto simp: destroy_def callSocketDestroy_def log_def emit_def flow_defs Let_def
           split: option.splits)

text \<open>
  \<open>destroy\<close> has no guard: called twice on a transport with a socket, it closes the
  socket twice.
\<close>

theorem destroy_twice_closes_twice:
  "socketCloses (rstate (run quietEnv [Destroy, Destroy] (newSystem newResponseState))) = 2"
  by (simp add: run_def newSystem_def newResponseState_def quietEnv_def socketCloses_def
        destroy_def callSocketDestroy_def emit_def flow_defs Let_def)

text \<open>
  C4, as the code has it. After a call of \<open>destroy\<close>, whatever is called afterwards,
  \<open>canWrite\<close> and \<open>canWriteHeaders\<close> are false; and a further call of \<open>destroy\<close> in any
  such state closes the socket once more when the transport has a socket with a
  \<open>destroy\<close> function (and does not when it has none).
\<close>

theorem destroy_is_terminal:
  "\<not> canWrite (rstate (run E (Destroy # cs) sys)) \<and>
   \<not> canWriteHeaders (rstate (run E (Destroy # cs) sys)) \<and>
   socketCloses (snd (destroy E (rstate (run E (Destroy # cs) sys)))) =
     socketCloses (rstate (run E (Destroy # cs) sys)) +
       (case socket E of None \<Rightarrow> 0 | Some d \<Rightarrow> 1)"
proof -
  have "isDestroyed (rstate (exec E Destroy sys))"
    using destroy_flags [of E "rstate sys"] by simp
  with sticky_run [of "exec E Destroy sys" E cs]
  have "isDestroyed (rstate (run E (Destroy # cs) sys))"
    by (simp add: sticky_def run_def)
  then show ?thesis
    by (simp add: canWrite_def canWriteHeaders_def socketCloses_destroy)
qed

theorem destroy_is_terminal_witness:
  "\<not> canWrite (rstate (run quietEnv [Destroy, MarkStreamingStarted, SafeEnd None] (newSystem newResponseState))) \<and>
   socketCloses (snd (destroy quietEnv (rstate (run quietEnv [Destroy, MarkStreamingStarted, SafeEnd None] (newSystem newResponseState))))) =
     socketCloses (rstate (run quietEnv [Destroy, MarkStreamingStarted, SafeEnd None] (newSystem newResponseState))) + 1"
  using destroy_is_terminal
    [where E = quietEnv and cs = "[MarkStreamingStarted, SafeEnd None]"
       and sys = "newSystem newResponseState"]
  by (simp add: quietEnv_def)

section \<open>The SSE terminator\<close>

text \<open>
  C5. On a fresh response with a transport that accepts every write, \<open>writeDone\<close> sends
  one chunk and returns the result of that write, but the chunk is \<open>data: [DONE]\<close>
  followed by backslash, n, backslash, n: it holds no line feed at all.
\<close>

theorem writeDone_writes_backslash_n:
  "writeDone quietEnv newResponseState =
     (Inr True, emit (WriteCall doneLiteral) newResponseState) \<and>
   doneLiteral = ''data: [DONE]'' @ [CHR 0x5C, CHR ''n'', CHR 0x5C, CHR ''n''] \<and>
   doneLiteral \<noteq> ''data: [DONE]'' @ [LF, LF] \<and>
   LF \<notin> set doneLiteral"
  by (simp add: writeDone_def safeWrite_def res_write_def callOriginalWrite_def canWrite_def
        flow_defs quietEnv_def newResponseState_def emit_def doneLiteral_def backslash_def LF_def)

section \<open>Termination with a logger that does not throw\<close>

lemma emit_fields:
  "isEnded (emit ev s) = isEnded s" "isDestroyed (emit ev s) = isDestroyed s"
  "isHeadersSent (emit ev s) = isHeadersSent s" "isStreaming (emit ev s) = isStreaming s"
  "streamingCompleted (emit ev s) = streamingCompleted s"
  "isTerminationInProgress (emit ev s) = isTerminationInProgress s"
  "terminationLock (emit ev s) = terminationLock s"
  "terminationReason (emit ev s) = terminationReason s"
  "history (emit ev s) = history s @ [ev]"
  by (simp_all add: emit_def)

lemma log_ok: "logger_ok E \<Longrightarrow> log E l msg s = (Inr (), emit (Logged l msg) s)"
  by (simp add: log_def logger_ok_def)

lemma safeEnd_ends: "canWrite s \<Longrightarrow> isEnded (snd (safeEnd E c s))"
  by (auto simp: safeEnd_def res_end_def callOriginalEnd_def markEnded_def canWrite_def log_def
                 emit_def flow_defs Let_def split: option.splits)

lemma safeEnd_returns: "logger_ok E \<Longrightarrow> \<exists>b. fst (safeEnd E c s) = Inr b"
  by (auto simp: safeEnd_def res_end_def callOriginalEnd_def canWrite_def log_ok
                 flow_defs split: option.splits)

lemma safeWrite_returns: "logger_ok E \<Longrightarrow> \<exists>b. fst (safeWrite E c s) = Inr b"
  by (auto simp: safeWrite_def res_write_def callOriginalWrite_def canWrite_def log_ok
                 flow_defs split: option.splits sum.splits)

lemma safeWriteHeaders_returns: "logger_ok E \<Longrightarrow> \<exists>b. fst (safeWriteHeaders E st h s) = Inr b"
  by (auto simp: safeWriteHeaders_def res_writeHead_def callOriginalWriteHead_def
                 canWriteHeaders_def log_ok flow_defs split: option.splits sum.splits)

lemma destroy_returns: "logger_ok E \<Longrightarrow> fst (destroy E s) = Inr ()"
  by (auto simp: destroy_def callSocketDestroy_def log_ok flow_defs Let_def
           split: option.splits sum.splits)

lemma terminated_sticky: "sticky s t \<Longrightarrow> terminated s \<Longrightarrow> terminated t"
  by (auto simp: sticky_def terminated_def)

lemma quiet_sticky: "quiet s t \<Longrightarrow> sticky s t"
  by (simp add: quiet_def)

lemma performTermination_body_ok:
  assumes "logger_ok E"
  shows "fst (performTermination_body E reason s) = Inr () \<and>
         terminated (snd (performTermination_body E reason s))"
proof (cases "\<not> isEnded s \<and> canWrite s")
  case True
  let ?s1 = "emit (Logged LDebug ''Ending response during coordinated termination'') s"
  have cw: "canWrite ?s1" using True by (simp add: canWrite_def emit_fields)
  obtain b s2 where se: "safeEnd E None ?s1 = (Inr b, s2)"
    using safeEnd_returns [OF assms, of None ?s1] by (cases "safeEnd E None ?s1") auto
  have "isEnded s2" using safeEnd_ends [OF cw, of E None] se by simp
  then show ?thesis
    using True
    by (simp add: performTermination_body_def flow_defs log_ok [OF assms] se terminated_def
          emit_fields)
next
  case False
  then have "terminated s" by (auto simp: terminated_def canWrite_def)
  then show ?thesis
    using False
    by (auto simp: performTermination_body_def flow_defs log_ok [OF assms] terminated_def
          emit_fields)
qed

lemma performTermination_ok:
  assumes "logger_ok E"
  shows "\<exists>mid s'. performTermination E reason s = (Fulfilled, s') \<and>
           history s' = history s @ PerformBegin reason # mid @ [PerformEnd] \<and>
           list_all plain mid \<and> terminated s' \<and> sticky s s' \<and>
           isTerminationInProgress s' = isTerminationInProgress s \<and>
           terminationLock s' = terminationLock s \<and>
           terminationReason s' = terminationReason s"
proof -
  let ?s0 = "emit (PerformBegin reason) s"
  obtain r s1 where b: "performTermination_body E reason ?s0 = (r, s1)"
    by (cases "performTermination_body E reason ?s0")
  from performTermination_body_ok [OF assms, of reason ?s0] b
  have r: "r = Inr ()" and t: "terminated s1" by simp_all
  have "quiet ?s0 s1"
    using keepsD [OF keeps_performTermination_body [OF quiet_syncRel], of ?s0 E reason] b by simp
  then obtain mid where h: "history s1 = history ?s0 @ mid" and p: "list_all plain mid"
    and st: "sticky ?s0 s1" and f: "isTerminationInProgress s1 = isTerminationInProgress ?s0"
    and l: "terminationLock s1 = terminationLock ?s0"
    and tr: "terminationReason s1 = terminationReason ?s0"
    by (auto simp: quiet_def)
  have "performTermination E reason s = (Fulfilled, emit PerformEnd s1)"
    by (simp add: performTermination_def b r)
  moreover have "history (emit PerformEnd s1) = history s @ PerformBegin reason # mid @ [PerformEnd]"
    using h by (simp add: emit_def)
  moreover have "terminated (emit PerformEnd s1)" using t by (simp add: terminated_def emit_def)
  moreover have "sticky s (emit PerformEnd s1)" using st by (simp add: sticky_def emit_def)
  moreover have "isTerminationInProgress (emit PerformEnd s1) = isTerminationInProgress s"
    using f by (simp add: emit_def)
  moreover have "terminationLock (emit PerformEnd s1) = terminationLock s"
    using l by (simp add: emit_def)
  moreover have "terminationReason (emit PerformEnd s1) = terminationReason s"
    using tr by (simp add: emit_def)
  ultimately show ?thesis using p by blast
qed

lemma start_drive:
  assumes "logger_ok E" and "\<not> isTerminationInProgress s"
  shows "\<exists>mid s'. coordinatedTermination_start E reason s = (Inr (AwaitDrive reason Fulfilled), s') \<and>
           history s' = history s @ Logged LDebug ''Starting coordinated termination'' #
                          PerformBegin reason # mid @ [PerformEnd] \<and>
           list_all plain mid \<and> terminated s' \<and> sticky s s' \<and>
           isTerminationInProgress s' \<and> terminationLock s' = Fulfilled \<and>
           terminationReason s' = Some reason"
proof -
  let ?s2 = "emit (Logged LDebug ''Starting coordinated termination'')
               (s\<lparr>isTerminationInProgress := True, terminationReason := Some reason\<rparr>)"
  obtain mid s3 where pt: "performTermination E reason ?s2 = (Fulfilled, s3)"
    and h: "history s3 = history ?s2 @ PerformBegin reason # mid @ [PerformEnd]"
    and p: "list_all plain mid" and t: "terminated s3" and st: "sticky ?s2 s3"
    and f: "isTerminationInProgress s3 = isTerminationInProgress ?s2"
    and tr: "terminationReason s3 = terminationReason ?s2"
    using performTermination_ok [OF assms(1), of reason ?s2] by blast
  let ?s4 = "s3\<lparr>terminationLock := Fulfilled\<rparr>"
  have "coordinatedTermination_start E reason s = (Inr (AwaitDrive reason Fulfilled), ?s4)"
    using assms(2) by (simp add: coordinatedTermination_start_def flow_defs log_ok [OF assms(1)] pt)
  moreover have "history ?s4 = history s @ Logged LDebug ''Starting coordinated termination'' #
                          PerformBegin reason # mid @ [PerformEnd]"
    using h by (simp add: emit_def)
  moreover have "terminated ?s4" using t by (simp add: terminated_def)
  moreover have "sticky s ?s4" using st by (simp add: sticky_def emit_def)
  moreover have "isTerminationInProgress ?s4" using f by (simp add: emit_def)
  moreover have "terminationReason ?s4 = Some reason" using tr by (simp add: emit_def)
  ultimately show ?thesis using p by auto
qed

lemma start_join:
  assumes "logger_ok E" and "isTerminationInProgress s"
  shows "coordinatedTermination_start E reason s =
           (Inr (AwaitJoin (terminationLock s)),
            emit (Logged LDebug ''Termination already in progress, waiting'') s)"
  using assms(2)
  by (simp add: coordinatedTermination_start_def flow_defs log_ok [OF assms(1)] emit_def)

section \<open>Headers at most once\<close>

lemma count_emit: "headerWrites (emit ev s) = headerWrites s + (if isWriteHeadCall ev then 1 else 0)"
  by (simp add: headerWrites_def emit_def)

lemma safeWriteHeaders_step:
  "canWriteHeaders s \<Longrightarrow>
     headerWrites (snd (safeWriteHeaders E status hdrs s)) = headerWrites s + 1 \<and>
     \<not> canWriteHeaders (snd (safeWriteHeaders E status hdrs s)) \<and>
     (fst (safeWriteHeaders E status hdrs s) = Inr True
        \<longleftrightarrow> originalWriteHead E status hdrs (history s) = None)"
  by (auto simp: safeWriteHeaders_def res_writeHead_def callOriginalWriteHead_def log_def
         canWriteHeaders_def flow_defs headerWrites_def emit_def split: option.splits)

lemma safeWriteHeadersAll_closed:
  "\<not> canWriteHeaders s \<Longrightarrow>
     safeWriteHeadersAll E args s = (replicate (length args) (Inr False), s)"
  by (induction args) (simp_all add: safeWriteHeaders_closed)

text \<open>
  C8. \<open>safeWriteHeaders\<close> is synchronous, so calls interleave as a sequence. For any
  sequence of calls from any state, with any transport and logger: the transport's header
  write is invoked at most once, every call after the first returns \<open>false\<close>, a call
  that returns \<open>true\<close> is the first one, made while headers could still be written, and
  the first call does return \<open>true\<close> when headers can be written and the transport accepts
  them. With a logger that does not throw no call throws: each returns \<open>true\<close> or \<open>false\<close>.
\<close>

theorem headers_at_most_once:
  "(case safeWriteHeadersAll E args s of
      (rs, s') \<Rightarrow>
        length rs = length args \<and>
        headerWrites s' \<le> headerWrites s + 1 \<and>
        (\<forall>r \<in> set (tl rs). r = Inr False) \<and>
        (\<forall>r \<in> set rs. r = Inr True \<longrightarrow> canWriteHeaders s \<and> r = hd rs) \<and>
        (args \<noteq> [] \<and> canWriteHeaders s \<and>
         originalWriteHead E (fst (hd args)) (snd (hd args)) (history s) = None
           \<longrightarrow> hd rs = Inr True) \<and>
        (logger_ok E \<longrightarrow> (\<forall>r \<in> set rs. r = Inr True \<or> r = Inr False)))"
proof (cases args)
  case Nil
  then show ?thesis by simp
next
  case (Cons a as)
  show ?thesis
  proof (cases "canWriteHeaders s")
    case False
    then show ?thesis by (simp add: safeWriteHeadersAll_closed)
  next
    case True
    obtain r s1 where st: "safeWriteHeaders E (fst a) (snd a) s = (r, s1)"
      by (cases "safeWriteHeaders E (fst a) (snd a) s")
    from safeWriteHeaders_step [OF True, of E "fst a" "snd a"] st
    have 1: "headerWrites s1 = headerWrites s + 1" and 2: "\<not> canWriteHeaders s1"
      and 3: "r = Inr True \<longleftrightarrow> originalWriteHead E (fst a) (snd a) (history s) = None"
      by simp_all
    have 4: "r = Inr True \<or> r = Inr False" if "logger_ok E"
      using safeWriteHeaders_returns [OF that, of "fst a" "snd a" s] st by auto
    show ?thesis
      using True 1 3 4 by (auto simp: Cons st safeWriteHeadersAll_closed [OF 2])
  qed
qed

theorem headers_at_most_once_witness:
  "(case safeWriteHeadersAll quietEnv [(200, []), (500, []), (200, [])] newResponseState of
      (rs, s') \<Rightarrow>
        length rs = 3 \<and> rs = [Inr True, Inr False, Inr False] \<and>
        headerWrites s' \<le> headerWrites newResponseState + 1 \<and> headerWrites s' = 1 \<and>
        (\<forall>r \<in> set (tl rs). r = Inr False) \<and>
        (\<forall>r \<in> set rs. r = Inr True \<longrightarrow> canWriteHeaders newResponseState \<and> r = hd rs) \<and>
        logger_ok quietEnv)"
  using headers_at_most_once
    [where E = quietEnv and args = "[(200, []), (500, []), (200, [])]" and s = newResponseState]
  by (simp add: safeWriteHeaders_def res_writeHead_def callOriginalWriteHead_def
        canWriteHeaders_def flow_defs quietEnv_def newResponseState_def emit_def headerWrites_def
        logger_ok_def split: prod.splits)

section \<open>After termination the response is closed\<close>

lemma plain_not_settled: "list_all plain ext \<Longrightarrow> filter isCallSettled ext = []"
proof (induction ext)
  case Nil
  show ?case by simp
next
  case (Cons ev ext)
  then show ?case by (cases ev) simp_all
qed

lemma sysInv_quiet:
  assumes "sysInv sys" and "quiet (rstate sys) s'"
  shows "sysInv (sys\<lparr>rstate := s'\<rparr>)"
proof -
  from assms(2) obtain ext where h: "history s' = history (rstate sys) @ ext"
    and p: "list_all plain ext" and st: "sticky (rstate sys) s'"
    and f: "isTerminationInProgress s' = isTerminationInProgress (rstate sys)"
    by (auto simp: quiet_def)
  have "filter isCallSettled (history s') = filter isCallSettled (history (rstate sys))"
    using h plain_not_settled [OF p] by simp
  with assms(1) f terminated_sticky [OF st] show ?thesis
    by (auto simp: sysInv_def)
qed

lemma sysInv_terminated: "terminated (rstate sys) \<Longrightarrow> sysInv sys"
  by (simp add: sysInv_def)

lemma resume_terminated:
  "terminated s \<Longrightarrow> terminated (snd (coordinatedTermination_resume E k s))"
  using keepsD [OF keeps_resume [OF sticky_syncRel sticky_asyncRel], of s E k]
  by (rule terminated_sticky)

lemma start_terminated:
  assumes "logger_ok E" and "isTerminationInProgress s \<longrightarrow> terminated s"
  shows "terminated (snd (coordinatedTermination_start E reason s))"
proof (cases "isTerminationInProgress s")
  case True
  with assms show ?thesis
    by (simp add: start_join terminated_def emit_fields)
next
  case False
  with start_drive [OF assms(1), of s reason] show ?thesis by auto
qed

lemma start_returns:
  assumes "logger_ok E"
  shows "\<exists>k. fst (coordinatedTermination_start E reason s) = Inr k"
proof (cases "isTerminationInProgress s")
  case True
  with assms show ?thesis by (simp add: start_join)
next
  case False
  with start_drive [OF assms(1), of s reason] show ?thesis by auto
qed

lemma sysInv_exec:
  assumes "logger_ok E" and "sysInv sys"
  shows "sysInv (exec E c sys)"
proof (cases c)
  case (CoordinatedTermination reason)
  have pre: "isTerminationInProgress (rstate sys) \<longrightarrow> terminated (rstate sys)"
    using assms(2) by (simp add: sysInv_def)
  obtain r s1 where st: "coordinatedTermination_start E reason (rstate sys) = (r, s1)"
    by (cases "coordinatedTermination_start E reason (rstate sys)")
  have "terminated s1" using start_terminated [OF assms(1) pre, of reason] st by simp
  then show ?thesis
    by (auto simp: CoordinatedTermination st sysInv_def terminated_def emit_fields
             split: sum.splits)
next
  case (Resume i)
  show ?thesis
  proof (cases "map_of (suspendedCalls sys) i")
    case None
    with assms(2) show ?thesis by (simp add: Resume)
  next
    case (Some k)
    then have "suspendedCalls sys \<noteq> []" by auto
    with assms(2) have t: "terminated (rstate sys)" by (simp add: sysInv_def)
    obtain r s1 where st: "coordinatedTermination_resume E k (rstate sys) = (r, s1)"
      by (cases "coordinatedTermination_resume E k (rstate sys)")
    have "terminated s1" using resume_terminated [OF t, of E k] st by simp
    then show ?thesis
      by (simp add: Resume Some st sysInv_def terminated_def emit_fields)
  qed
qed (simp_all add: sysInv_quiet [OF assms(2)] markStreamingStarted_def markStreamingCompleted_def
       keepsD [OF keeps_safeWriteHeaders [OF quiet_syncRel]]
       keepsD [OF keeps_safeWrite [OF quiet_syncRel]]
       keepsD [OF keeps_safeEnd [OF quiet_syncRel]]
       keepsD [OF keeps_writeEvent [OF quiet_syncRel]]
       keepsD [OF keeps_writeDone [OF quiet_syncRel]]
       keepsD [OF syncRelD(4) [OF quiet_syncRel]] keepsD [OF syncRelD(5) [OF quiet_syncRel]]
       keepsD [OF syncRelD(6) [OF quiet_syncRel]] keepsD [OF syncRelD(7) [OF quiet_syncRel]]
       keepsD [OF syncRelD(8) [OF quiet_syncRel]] keepsD [OF syncRelD(9) [OF quiet_syncRel]]
       keepsD [OF syncRelD(10) [OF quiet_syncRel]]
       syncRelD(11) [OF quiet_syncRel, unfolded markStreamingStarted_def]
       syncRelD(12) [OF quiet_syncRel, unfolded markStreamingCompleted_def])

lemma sysInv_run:
  assumes "logger_ok E"
  shows "sysInv sys \<Longrightarrow> sysInv (run E cs sys)"
proof (induction cs arbitrary: sys)
  case Nil
  then show ?case by (simp add: run_def)
next
  case (Cons c cs)
  from Cons.IH [OF sysInv_exec [OF assms Cons.prems, of c]] show ?case
    by (simp add: run_def)
qed

lemma sysInv_new: "sysInv (newSystem newResponseState)"
  by (simp add: sysInv_def newSystem_def newResponseState_def)

lemma coordinatedTermination_terminated:
  assumes "logger_ok E" and "isTerminationInProgress s \<longrightarrow> terminated s"
  shows "terminated (snd (coordinatedTermination E reason s))"
proof -
  obtain k s1 where st: "coordinatedTermination_start E reason s = (Inr k, s1)"
    using start_returns [OF assms(1), of reason s]
    by (cases "coordinatedTermination_start E reason s") auto
  have "terminated s1" using start_terminated [OF assms, of reason] st by simp
  then have "terminated (snd (coordinatedTermination_resume E k s1))"
    by (rule resume_terminated)
  then show ?thesis
    by (simp add: coordinatedTermination_def andThen_def st)
qed

lemma boundary_terminate_terminated:
  assumes "logger_ok E" and "isTerminationInProgress s \<longrightarrow> terminated s"
  shows "fst (boundary_terminate E s) = Inr () \<and> terminated (snd (boundary_terminate E s))"
proof -
  obtain r s1 where ct: "coordinatedTermination E ''error_boundary'' s = (r, s1)"
    by (cases "coordinatedTermination E ''error_boundary'' s")
  have "terminated s1"
    using coordinatedTermination_terminated [OF assms, of "''error_boundary''"] ct by simp
  then show ?thesis
    by (cases r)
       (simp_all add: boundary_terminate_def flow_defs log_ok [OF assms(1)] ct terminated_def
          emit_fields)
qed

lemma boundary_logError_cases:
  assumes "logger_ok E"
  shows "boundary_logError E error s =
           (case error of
              Nullish \<Rightarrow> (Inl (Thrown nullMessageRead), s)
            | Thrown e \<Rightarrow>
                (Inr (), emit (Logged LError ''Streaming error boundary triggered'') s))"
proof (cases error)
  case Nullish
  then show ?thesis
    by (simp add: boundary_logError_def andThen_def readMessage_def messageOf_def)
next
  case (Thrown e)
  then show ?thesis
    by (cases e)
       (simp add: boundary_logError_def andThen_def readMessage_def messageOf_def raised_def
          log_ok [OF assms])
qed

text \<open>
  C10. Take any state reached from a new response by any sequence of calls (synchronous
  methods, calls of \<open>coordinatedTermination\<close> and their resumptions, in any order), with a
  logger that does not throw. A call of \<open>coordinatedTermination\<close> made there leaves the
  response ended or destroyed, so \<open>canWriteHeaders\<close> is false; as soon as any call of
  \<open>coordinatedTermination\<close> has settled, the response is ended or destroyed; and in the
  error boundary the check after termination fails, so the boundary takes the branch that
  skips the error response and only logs. That holds from the state itself and from the
  state the first statement of the catch block leaves, for every handler error: either
  that statement throws, the state is untouched and the check is never reached, or it
  logs and the check after termination fails.
\<close>

theorem termination_leaves_response_closed:
  assumes "logger_ok E"
  shows "let s = rstate (run E cs (newSystem newResponseState));
             s' = snd (coordinatedTermination E reason s);
             b = snd (boundary_terminate E s)
         in (isEnded s' \<or> isDestroyed s') \<and> \<not> canWriteHeaders s' \<and>
            (filter isCallSettled (history s) \<noteq> [] \<longrightarrow> isEnded s \<or> isDestroyed s) \<and>
            \<not> canWriteHeaders b \<and>
            boundary_respond E b =
              log E LDebug ''Skipping error response - headers already sent or response ended'' b \<and>
            (case boundary_logError E error s of
               (Inl typeError, t) \<Rightarrow> t = s
             | (Inr u, t) \<Rightarrow>
                 \<not> canWriteHeaders (snd (boundary_terminate E t)) \<and>
                 boundary_respond E (snd (boundary_terminate E t)) =
                   log E LDebug
                     ''Skipping error response - headers already sent or response ended''
                     (snd (boundary_terminate E t)))"
proof -
  let ?sys = "run E cs (newSystem newResponseState)"
  let ?t = "emit (Logged LError ''Streaming error boundary triggered'') (rstate ?sys)"
  have inv: "sysInv ?sys" by (rule sysInv_run [OF assms sysInv_new])
  then have pre: "isTerminationInProgress (rstate ?sys) \<longrightarrow> terminated (rstate ?sys)"
    by (simp add: sysInv_def)
  then have pre': "isTerminationInProgress ?t \<longrightarrow> terminated ?t"
    by (simp add: terminated_def emit_fields)
  have 1: "terminated (snd (coordinatedTermination E reason (rstate ?sys)))"
    by (rule coordinatedTermination_terminated [OF assms pre])
  have 2: "terminated (snd (boundary_terminate E (rstate ?sys)))"
    using boundary_terminate_terminated [OF assms pre] by simp
  have 3: "filter isCallSettled (history (rstate ?sys)) \<noteq> [] \<longrightarrow> terminated (rstate ?sys)"
    using inv by (simp add: sysInv_def)
  have 4: "terminated (snd (boundary_terminate E ?t))"
    using boundary_terminate_terminated [OF assms pre'] by simp
  have nc: "terminated t \<Longrightarrow> \<not> canWriteHeaders t" for t
    by (auto simp: terminated_def canWriteHeaders_def)
  have 5: "case boundary_logError E error (rstate ?sys) of
               (Inl typeError, t) \<Rightarrow> t = rstate ?sys
             | (Inr u, t) \<Rightarrow>
                 \<not> canWriteHeaders (snd (boundary_terminate E t)) \<and>
                 boundary_respond E (snd (boundary_terminate E t)) =
                   log E LDebug
                     ''Skipping error response - headers already sent or response ended''
                     (snd (boundary_terminate E t))"
    using nc [OF 4]
    by (cases error) (simp_all add: boundary_logError_cases [OF assms] boundary_respond_def)
  show ?thesis
    using 1 2 3 nc [OF 1] nc [OF 2] 5
    by (simp add: Let_def terminated_def boundary_respond_def)
qed

theorem termination_leaves_response_closed_witness:
  "logger_ok quietEnv \<and>
   (let s = rstate (run quietEnv [SafeWriteHeaders 200 [], CoordinatedTermination ''timeout'']
                 (newSystem newResponseState));
        s' = snd (coordinatedTermination quietEnv ''error_boundary'' s);
        b = snd (boundary_terminate quietEnv s)
    in (isEnded s' \<or> isDestroyed s') \<and> \<not> canWriteHeaders s' \<and>
       (filter isCallSettled (history s) \<noteq> [] \<longrightarrow> isEnded s \<or> isDestroyed s) \<and>
       \<not> canWriteHeaders b \<and>
       boundary_respond quietEnv b =
         log quietEnv LDebug
           ''Skipping error response - headers already sent or response ended'' b \<and>
       (case boundary_logError quietEnv (Thrown (Exn ''upstream failed'')) s of
          (Inl typeError, t) \<Rightarrow> t = s
        | (Inr u, t) \<Rightarrow>
            \<not> canWriteHeaders (snd (boundary_terminate quietEnv t)) \<and>
            boundary_respond quietEnv (snd (boundary_terminate quietEnv t)) =
              log quietEnv LDebug
                ''Skipping error response - headers already sent or response ended''
                (snd (boundary_terminate quietEnv t))))"
proof -
  have h: "logger_ok quietEnv" by (simp add: logger_ok_def quietEnv_def)
  from h termination_leaves_response_closed
         [OF h, where cs = "[SafeWriteHeaders 200 [], CoordinatedTermination ''timeout'']"
            and reason = "''error_boundary''" and error = "Thrown (Exn ''upstream failed'')"]
  show ?thesis by (rule conjI)
qed

section \<open>The error boundary\<close>

lemma tryCatch_log_returns:
  "logger_ok E \<Longrightarrow> fst (tryCatch m (\<lambda>err. log E l msg) s) = Inr ()"
  by (cases "m s") (auto simp: tryCatch_def log_ok split: sum.splits)

lemma boundary_terminate_returns: "logger_ok E \<Longrightarrow> fst (boundary_terminate E s) = Inr ()"
  by (simp add: boundary_terminate_def tryCatch_log_returns)

lemma boundary_respond_returns: "logger_ok E \<Longrightarrow> fst (boundary_respond E s) = Inr ()"
  by (simp add: boundary_respond_def boundary_sendError_def tryCatch_log_returns log_ok)

lemma raised_fst: "fst (m s) = Inr a \<Longrightarrow> fst (raised m s) = Inr a"
  by (cases "m s") (simp add: raised_def)

lemma raised_snd: "snd (raised m s) = snd (m s)"
  by (cases "m s") (simp add: raised_def split: sum.splits)

lemma andThen_returns: "fst (m s) = Inr a \<Longrightarrow> andThen m f s = f a (snd (m s))"
  by (cases "m s") (simp add: andThen_def)

lemma boundary_errorHandler_returns:
  assumes "logger_ok E" and "\<forall>h v t. errorHandler = Some h \<longrightarrow> fst (h v t) \<noteq> Inl Nullish"
  shows "fst (boundary_errorHandler E errorHandler error s) = Inr ()"
proof (cases errorHandler)
  case None
  then show ?thesis by (simp add: boundary_errorHandler_def ret_def)
next
  case (Some h)
  obtain r s1 where hs: "h error s = (r, s1)" by (cases "h error s")
  from assms(2) Some hs have nn: "r \<noteq> Inl Nullish" by (metis fst_conv)
  show ?thesis
  proof (cases r)
    case (Inr u)
    with Some hs show ?thesis by (simp add: boundary_errorHandler_def tryCatch_def)
  next
    case (Inl v)
    with nn obtain msg where v: "v = Thrown (Exn msg)" by (cases v; cases "case v of Thrown e \<Rightarrow> e") auto
    with Some hs Inl show ?thesis
      by (simp add: boundary_errorHandler_def tryCatch_def andThen_def readMessage_def
            messageOf_def raised_def log_ok [OF assms(1)])
  qed
qed

lemma coordinatedTermination_drive:
  assumes "logger_ok E" and "\<not> isTerminationInProgress s"
  shows "\<exists>s'. coordinatedTermination E reason s = (Inr (), s') \<and>
           terminationReason s' = Some reason \<and> terminated s' \<and>
           \<not> isTerminationInProgress s'"
proof -
  obtain s1 where st: "coordinatedTermination_start E reason s = (Inr (AwaitDrive reason Fulfilled), s1)"
    and t: "terminated s1" and r: "terminationReason s1 = Some reason"
    using start_drive [OF assms, of reason] by blast
  show ?thesis
    using t r
    by (simp add: coordinatedTermination_def andThen_def st coordinatedTermination_resume_def
          await_def tryCatch_def ret_def terminated_def)
qed

lemma boundary_terminate_drive:
  assumes "logger_ok E" and "\<not> isTerminationInProgress s"
  shows "terminationReason (snd (boundary_terminate E s)) = Some ''error_boundary'' \<and>
         terminated (snd (boundary_terminate E s))"
  using coordinatedTermination_drive [OF assms, of "''error_boundary''"]
  by (auto simp: boundary_terminate_def tryCatch_def)

text \<open>
  A handler that throws an Error object \<open>e\<close> leaves a state \<open>s1\<close>. With a logger that does
  not throw and an \<open>errorHandler\<close> that does not reject with \<open>null\<close> or \<open>undefined\<close>, the
  wrapper logs, runs \<open>coordinatedTermination\<close> with the reason \<open>error_boundary\<close>, sends the
  500 payload if and only if \<open>canWriteHeaders\<close> holds after termination, runs the
  \<open>errorHandler\<close>, calls \<open>destroy\<close> and throws \<open>e\<close> itself.
\<close>

lemma boundary_rethrows_error_objects:
  assumes "logger_ok E" and "fn s = (Inl (Thrown e), s1)"
    and "\<forall>h v t. errorHandler = Some h \<longrightarrow> fst (h v t) \<noteq> Inl Nullish"
  shows "let s0 = emit (Logged LError ''Streaming error boundary triggered'') s1;
             s2 = snd (boundary_terminate E s0);
             s3 = snd (boundary_respond E s2);
             s4 = snd (boundary_errorHandler E errorHandler (Thrown e) s3);
             s5 = snd (destroy E s4)
         in withStreamingErrorBoundary E fn errorHandler s = (Inl (Thrown e), s5) \<and>
            isDestroyed s5 \<and> isEnded s5 \<and>
            (\<not> isTerminationInProgress s1 \<longrightarrow>
               terminationReason s2 = Some ''error_boundary'' \<and> (isEnded s2 \<or> isDestroyed s2)) \<and>
            (canWriteHeaders s2 \<longrightarrow> s3 = snd (boundary_sendError E s2)) \<and>
            (\<not> canWriteHeaders s2 \<longrightarrow>
               s3 = emit (Logged LDebug
                           ''Skipping error response - headers already sent or response ended'') s2)"
proof -
  let ?s0 = "emit (Logged LError ''Streaming error boundary triggered'') s1"
  have 1: "withStreamingErrorBoundary E fn errorHandler s = boundary_catch E errorHandler (Thrown e) s1"
    by (simp add: withStreamingErrorBoundary_def tryCatch_def assms(2))
  have 2: "boundary_catch E errorHandler (Thrown e) s1 =
             (Inl (Thrown e),
              snd (destroy E (snd (boundary_errorHandler E errorHandler (Thrown e)
                     (snd (boundary_respond E (snd (boundary_terminate E ?s0))))))))"
    by (simp add: boundary_catch_def
          andThen_returns [of "boundary_logError E (Thrown e)" s1 "()"]
          boundary_logError_cases [OF assms(1)]
          andThen_returns [OF boundary_errorHandler_returns [OF assms(1,3)]]
          andThen_returns [OF raised_fst [OF boundary_terminate_returns [OF assms(1)]]]
          andThen_returns [OF raised_fst [OF boundary_respond_returns [OF assms(1)]]]
          andThen_returns [OF raised_fst [OF destroy_returns [OF assms(1)]]]
          raised_snd throw_def)
  have 3: "\<not> isTerminationInProgress s1 \<Longrightarrow>
             terminationReason (snd (boundary_terminate E ?s0)) = Some ''error_boundary'' \<and>
             (isEnded (snd (boundary_terminate E ?s0)) \<or> isDestroyed (snd (boundary_terminate E ?s0)))"
    using boundary_terminate_drive [OF assms(1), of ?s0] by (simp add: terminated_def emit_fields)
  show ?thesis
    unfolding Let_def
    apply (intro conjI impI)
         apply (simp add: 1 2)
        apply (simp add: destroy_flags)
       apply (simp add: destroy_flags)
      apply (simp add: 3)
      apply (simp add: 3)
     apply (simp add: boundary_respond_def)
    apply (simp add: boundary_respond_def log_ok [OF assms(1)])
    done
qed

text \<open>
  C9. A handler that sends headers and then throws \<open>null\<close>, with collaborators that never
  fail: the first statement of the catch block reads \<open>error.message\<close> to build the log
  record, so the wrapper throws a TypeError instead of the handler's value,
  \<open>coordinatedTermination\<close> and \<open>destroy\<close> never run, and the response is left neither ended
  nor destroyed.
\<close>

theorem boundary_fails_on_null_error:
  "withStreamingErrorBoundary quietEnv nullHandler None newResponseState =
     (Inl (Thrown nullMessageRead), snd (safeWriteHeaders quietEnv 200 [] newResponseState)) \<and>
   Thrown nullMessageRead \<noteq> Nullish \<and>
   \<not> isDestroyed (snd (withStreamingErrorBoundary quietEnv nullHandler None newResponseState)) \<and>
   \<not> isEnded (snd (withStreamingErrorBoundary quietEnv nullHandler None newResponseState)) \<and>
   history (snd (withStreamingErrorBoundary quietEnv nullHandler None newResponseState)) =
     [WriteHeadCall 200 []]"
  by (simp add: withStreamingErrorBoundary_def boundary_catch_def boundary_logError_def
        readMessage_def messageOf_def nullHandler_def safeWriteHeaders_def res_writeHead_def
        callOriginalWriteHead_def canWriteHeaders_def quietEnv_def newResponseState_def emit_def
        flow_defs)

text \<open>The same handler throwing an Error object: the wrapper rethrows it after \<open>destroy\<close>.\<close>

lemma boundary_rethrows_upstream_failure:
  "fst (withStreamingErrorBoundary quietEnv failingHandler None newResponseState) =
     Inl (Thrown (Exn ''upstream failed'')) \<and>
   isDestroyed (snd (withStreamingErrorBoundary quietEnv failingHandler None newResponseState)) \<and>
   isEnded (snd (withStreamingErrorBoundary quietEnv failingHandler None newResponseState))"
proof -
  have h: "logger_ok quietEnv" by (simp add: logger_ok_def quietEnv_def)
  have f: "failingHandler newResponseState =
     (Inl (Thrown (Exn ''upstream failed'')), snd (safeWriteHeaders quietEnv 200 [] newResponseState))"
    by (simp add: failingHandler_def throw_def)
  have n: "\<forall>h v t. (None :: (thrown \<Rightarrow> ResponseState \<Rightarrow> (thrown + unit) \<times> ResponseState) option) = Some h
             \<longrightarrow> fst (h v t) \<noteq> Inl Nullish"
    by simp
  from boundary_rethrows_error_objects
         [where fn = failingHandler and s = newResponseState and E = quietEnv
            and errorHandler = None, OF h f n]
  show ?thesis by (simp add: Let_def)
qed

text \<open>
  An \<open>errorHandler\<close> that rejects with \<open>null\<close> or \<open>undefined\<close>, after a handler that threw
  an Error object: the catch block around it reads \<open>handlerError.message\<close>, so the wrapper
  throws a TypeError instead of the handler's error and \<open>destroy\<close> never runs; the state
  is the one the \<open>errorHandler\<close> left.
\<close>

lemma boundary_fails_on_null_handler_error:
  assumes "logger_ok E" and "fn s = (Inl (Thrown e), s1)"
    and "h (Thrown e)
           (snd (boundary_respond E (snd (boundary_terminate E
              (emit (Logged LError ''Streaming error boundary triggered'') s1))))) =
         (Inl Nullish, s4)"
  shows "withStreamingErrorBoundary E fn (Some h) s = (Inl (Thrown nullMessageRead), s4)"
proof -
  let ?s3 = "snd (boundary_respond E (snd (boundary_terminate E
              (emit (Logged LError ''Streaming error boundary triggered'') s1))))"
  have 1: "withStreamingErrorBoundary E fn (Some h) s = boundary_catch E (Some h) (Thrown e) s1"
    by (simp add: withStreamingErrorBoundary_def tryCatch_def assms(2))
  have 2: "boundary_errorHandler E (Some h) (Thrown e) ?s3 = (Inl (Thrown nullMessageRead), s4)"
    by (simp add: boundary_errorHandler_def tryCatch_def assms(3) andThen_def readMessage_def
          messageOf_def)
  have 3: "boundary_catch E (Some h) (Thrown e) s1 = (Inl (Thrown nullMessageRead), s4)"
    by (simp add: boundary_catch_def
          andThen_returns [of "boundary_logError E (Thrown e)" s1 "()"]
          boundary_logError_cases [OF assms(1)]
          andThen_returns [OF raised_fst [OF boundary_terminate_returns [OF assms(1)]]]
          andThen_returns [OF raised_fst [OF boundary_respond_returns [OF assms(1)]]]
          raised_snd)
       (simp add: andThen_def 2)
  show ?thesis by (simp add: 1 3)
qed

section \<open>Concurrent calls of \<open>coordinatedTermination\<close>\<close>

lemma run_append: "run E (cs @ ds) sys = run E ds (run E cs sys)"
  by (simp add: run_def)

lemma run_Cons: "run E (c # cs) sys = run E cs (exec E c sys)"
  by (simp add: run_def)

lemma run_Nil: "run E [] sys = sys"
  by (simp add: run_def)

lemma exec_drive:
  assumes "logger_ok E" and "\<not> isTerminationInProgress (rstate sys)"
  shows "\<exists>mid. history (rstate (exec E (CoordinatedTermination reason) sys)) =
                  history (rstate sys) @ Logged LDebug ''Starting coordinated termination'' #
                    PerformBegin reason # mid @ [PerformEnd] \<and>
               list_all plain mid \<and>
               isTerminationInProgress (rstate (exec E (CoordinatedTermination reason) sys)) \<and>
               terminationLock (rstate (exec E (CoordinatedTermination reason) sys)) = Fulfilled \<and>
               suspendedCalls (exec E (CoordinatedTermination reason) sys) =
                 suspendedCalls sys @ [(nextCall sys, AwaitDrive reason Fulfilled)] \<and>
               nextCall (exec E (CoordinatedTermination reason) sys) = Suc (nextCall sys)"
proof -
  obtain mid s' where
    st: "coordinatedTermination_start E reason (rstate sys) = (Inr (AwaitDrive reason Fulfilled), s')"
    and h: "history s' = history (rstate sys) @ Logged LDebug ''Starting coordinated termination'' #
                          PerformBegin reason # mid @ [PerformEnd]"
    and p: "list_all plain mid" and f: "isTerminationInProgress s'"
    and l: "terminationLock s' = Fulfilled"
    using start_drive [OF assms, of reason] by blast
  show ?thesis using h p f l by (simp add: st)
qed

lemma exec_join:
  assumes "logger_ok E" and "isTerminationInProgress (rstate sys)"
  shows "rstate (exec E (CoordinatedTermination reason) sys) =
           emit (Logged LDebug ''Termination already in progress, waiting'') (rstate sys)"
    and "suspendedCalls (exec E (CoordinatedTermination reason) sys) =
           suspendedCalls sys @ [(nextCall sys, AwaitJoin (terminationLock (rstate sys)))]"
    and "nextCall (exec E (CoordinatedTermination reason) sys) = Suc (nextCall sys)"
  by (simp_all add: start_join [OF assms])

lemma run_joins:
  assumes "logger_ok E"
  shows "ready sys \<Longrightarrow> isTerminationInProgress (rstate sys) \<Longrightarrow>
         terminationLock (rstate sys) = Fulfilled \<Longrightarrow>
         ready (run E (map CoordinatedTermination rs) sys) \<and>
         history (rstate (run E (map CoordinatedTermination rs) sys)) =
           history (rstate sys) @
             replicate (length rs) (Logged LDebug ''Termination already in progress, waiting'') \<and>
         fst ` set (suspendedCalls (run E (map CoordinatedTermination rs) sys)) =
           fst ` set (suspendedCalls sys) \<union> {nextCall sys ..< nextCall sys + length rs}"
proof (induction rs arbitrary: sys)
  case Nil
  then show ?case by (simp add: run_Nil)
next
  case (Cons r rs)
  define sys1 where "sys1 = exec E (CoordinatedTermination r) sys"
  note j = exec_join [OF assms Cons.prems(2), of r, folded sys1_def]
  have fresh: "nextCall sys \<notin> fst ` set (suspendedCalls sys)"
    using Cons.prems(1) by (auto simp: ready_def)
  have r1: "ready sys1"
    using Cons.prems fresh
    by (auto simp: ready_def j emit_fields list_all_iff less_Suc_eq)
  have f1: "isTerminationInProgress (rstate sys1)"
    using Cons.prems(2) by (simp add: j emit_fields)
  have l1: "terminationLock (rstate sys1) = Fulfilled"
    using Cons.prems(3) by (simp add: j emit_fields)
  have "run E (map CoordinatedTermination (r # rs)) sys = run E (map CoordinatedTermination rs) sys1"
    by (simp add: run_def sys1_def)
  with Cons.IH [OF r1 f1 l1] show ?case
    by (auto simp: j emit_fields replicate_app_Cons_same)
qed

lemma exec_resume:
  assumes "ready sys" and "i \<in> fst ` set (suspendedCalls sys)"
  shows "ready (exec E (Resume i) sys) \<and>
         history (rstate (exec E (Resume i) sys)) = history (rstate sys) @ [CallSettled i None] \<and>
         fst ` set (suspendedCalls (exec E (Resume i) sys)) = fst ` set (suspendedCalls sys) - {i}"
proof -
  from assms(2) obtain k where m: "map_of (suspendedCalls sys) i = Some k"
    by (metis domD dom_map_of_conv_image_fst)
  then have mem: "(i, k) \<in> set (suspendedCalls sys)" by (rule map_of_SomeD)
  with assms(1) have aw: "awaited k = Fulfilled" by (auto simp: ready_def list_all_iff)
  have res: "coordinatedTermination_resume E k (rstate sys) =
               (Inr (), if isDrive k then (rstate sys)\<lparr>isTerminationInProgress := False\<rparr>
                        else rstate sys)"
    using aw by (cases k) (simp_all add: coordinatedTermination_resume_def await_def flow_defs)
  have other: "\<exists>p \<in> set (filter (\<lambda>p. fst p \<noteq> i) (suspendedCalls sys)). isDrive (snd p)"
    if "\<not> isDrive k" and "\<exists>p \<in> set (suspendedCalls sys). isDrive (snd p)"
  proof -
    from that(2) obtain p where p: "p \<in> set (suspendedCalls sys)" "isDrive (snd p)" by blast
    have "fst p \<noteq> i"
    proof
      assume "fst p = i"
      with p(1) mem assms(1) have "snd p = k"
        by (metis eq_key_imp_eq_value prod.collapse ready_def)
      with p(2) that(1) show False by simp
    qed
    with p show ?thesis by (intro bexI [of _ p]) auto
  qed
  have rd: "ready (exec E (Resume i) sys)"
    using assms(1) other
    by (auto simp: ready_def m res settled_def emit_fields list_all_iff distinct_map_filter)
  have ks: "fst ` set (suspendedCalls (exec E (Resume i) sys)) = fst ` set (suspendedCalls sys) - {i}"
    by (auto simp: m res)
  have hs: "history (rstate (exec E (Resume i) sys)) = history (rstate sys) @ [CallSettled i None]"
    by (simp add: m res settled_def emit_fields)
  from rd ks hs show ?thesis by blast
qed

lemma run_resumes:
  "ready sys \<Longrightarrow> distinct order \<Longrightarrow> set order \<subseteq> fst ` set (suspendedCalls sys) \<Longrightarrow>
   ready (run E (map Resume order) sys) \<and>
   history (rstate (run E (map Resume order) sys)) =
     history (rstate sys) @ map (\<lambda>i. CallSettled i None) order \<and>
   fst ` set (suspendedCalls (run E (map Resume order) sys)) =
     fst ` set (suspendedCalls sys) - set order"
proof (induction order arbitrary: sys)
  case Nil
  then show ?case by (simp add: run_Nil)
next
  case (Cons i order)
  have i: "i \<in> fst ` set (suspendedCalls sys)" using Cons.prems(3) by simp
  note e = exec_resume [OF Cons.prems(1) i, of E]
  have r1: "ready (exec E (Resume i) sys)" using e by simp
  have d1: "distinct order" using Cons.prems(2) by simp
  have s1: "set order \<subseteq> fst ` set (suspendedCalls (exec E (Resume i) sys))"
    using e Cons.prems(2,3) by auto
  from Cons.IH [OF r1 d1 s1] e show ?case
    by (auto simp: run_Cons)
qed

lemma plain_facts:
  "list_all plain mid \<Longrightarrow>
     filter isPerformBegin mid = [] \<and> count_list mid PerformEnd = 0 \<and>
     (\<forall>e \<in> set mid. e \<noteq> PerformEnd)"
proof (induction mid)
  case Nil
  show ?case by simp
next
  case (Cons ev mid)
  then show ?case by (cases ev) simp_all
qed

lemma settled_facts:
  "filter isCallSettled (map (\<lambda>i. CallSettled i None) order) = map (\<lambda>i. CallSettled i None) order \<and>
   filter isPerformBegin (map (\<lambda>i. CallSettled i None) order) = [] \<and>
   count_list (map (\<lambda>i. CallSettled i None) order) PerformEnd = 0"
  by (induction order) simp_all

lemma joined_facts:
  "filter isCallSettled (replicate n (Logged l msg)) = [] \<and>
   filter isPerformBegin (replicate n (Logged l msg)) = [] \<and>
   count_list (replicate n (Logged l msg)) PerformEnd = 0"
  by (induction n) simp_all

lemma concurrent_events:
  assumes "logger_ok E" and "\<not> isTerminationInProgress s" and "distinct order"
    and "set order = {..<Suc (length rs)}"
  shows "\<exists>mid. history (rstate (concurrentTermination E (r # rs) order s)) =
                 history s @ Logged LDebug ''Starting coordinated termination'' #
                   PerformBegin r # mid @ [PerformEnd] @
                   replicate (length rs) (Logged LDebug ''Termination already in progress, waiting'') @
                   map (\<lambda>i. CallSettled i None) order \<and>
               list_all plain mid \<and>
               suspendedCalls (concurrentTermination E (r # rs) order s) = [] \<and>
               \<not> isTerminationInProgress (rstate (concurrentTermination E (r # rs) order s))"
proof -
  define sys1 where "sys1 = exec E (CoordinatedTermination r) (newSystem s)"
  define sys2 where "sys2 = run E (map CoordinatedTermination rs) sys1"
  define sys3 where "sys3 = run E (map Resume order) sys2"
  have c: "concurrentTermination E (r # rs) order s = sys3"
    by (simp add: concurrentTermination_def run_append run_Cons sys1_def sys2_def sys3_def)
  have np: "\<not> isTerminationInProgress (rstate (newSystem s))"
    using assms(2) by (simp add: newSystem_def)
  from exec_drive [OF assms(1) np, of r, folded sys1_def]
  obtain mid where h1: "history (rstate sys1) =
        history s @ Logged LDebug ''Starting coordinated termination'' #
          PerformBegin r # mid @ [PerformEnd]"
    and p: "list_all plain mid" and f1: "isTerminationInProgress (rstate sys1)"
    and l1: "terminationLock (rstate sys1) = Fulfilled"
    and sc1: "suspendedCalls sys1 = [(0, AwaitDrive r Fulfilled)]"
    and n1: "nextCall sys1 = Suc 0"
    by (auto simp: newSystem_def)
  have r1: "ready sys1" by (simp add: ready_def sc1 n1)
  from run_joins [OF assms(1) r1 f1 l1, of rs, folded sys2_def]
  have r2: "ready sys2"
    and h2: "history (rstate sys2) = history (rstate sys1) @
               replicate (length rs) (Logged LDebug ''Termination already in progress, waiting'')"
    and k2: "fst ` set (suspendedCalls sys2) = {..<Suc (length rs)}"
    by (auto simp: sc1 n1)
  have sub: "set order \<subseteq> fst ` set (suspendedCalls sys2)"
    using assms(4) k2 by simp
  from run_resumes [OF r2 assms(3) sub, of E, folded sys3_def]
  have r3: "ready sys3"
    and h3: "history (rstate sys3) = history (rstate sys2) @ map (\<lambda>i. CallSettled i None) order"
    and k3: "fst ` set (suspendedCalls sys3) = {}"
    using assms(4) k2 by auto
  from k3 have e3: "suspendedCalls sys3 = []" by simp
  with r3 have f3: "\<not> isTerminationInProgress (rstate sys3)" by (simp add: ready_def)
  show ?thesis
    using h1 h2 h3 p e3 f3 by (simp add: c)
qed

text \<open>
  C1. Let \<open>N \<ge> 1\<close> calls of \<open>coordinatedTermination\<close>, with any reasons, be made concurrently
  on a response with no termination episode in progress, with a logger that does not
  throw (the state is one in which the terminal write was reached at most once, and only
  if the response is marked ended, as in every reachable state). Whatever the order in
  which the event loop resumes them: \<open>_performTermination\<close> starts exactly once, for the
  reason of the first call, and finishes exactly once; no call settles before it has
  finished; each of the \<open>N\<close> calls settles exactly once and is fulfilled; the terminal
  write of the transport has been reached at most once in the whole history; and at the
  end no call is suspended and the termination flag is cleared.
\<close>

theorem single_flight_termination:
  assumes "logger_ok E" and "\<not> isTerminationInProgress s" and "endInv s"
    and "reasons \<noteq> []" and "distinct order" and "set order = {..<length reasons}"
  shows "let sys' = concurrentTermination E reasons order s;
             ev = newEvents s (rstate sys')
         in filter isPerformBegin ev = [PerformBegin (hd reasons)] \<and>
            count_list ev PerformEnd = 1 \<and>
            filter isCallSettled (untilPerformEnd ev) = [] \<and>
            filter isCallSettled ev = map (\<lambda>i. CallSettled i None) order \<and>
            endCalls (rstate sys') \<le> 1 \<and>
            suspendedCalls sys' = [] \<and>
            \<not> isTerminationInProgress (rstate sys')"
proof -
  from assms(4) obtain r rs where rs: "reasons = r # rs" by (cases reasons) auto
  have o: "set order = {..<Suc (length rs)}" using assms(6) rs by simp
  from concurrent_events [OF assms(1,2,5) o, of r]
  obtain mid where
    h: "history (rstate (concurrentTermination E reasons order s)) =
          history s @ Logged LDebug ''Starting coordinated termination'' #
            PerformBegin r # mid @ [PerformEnd] @
            replicate (length rs) (Logged LDebug ''Termination already in progress, waiting'') @
            map (\<lambda>i. CallSettled i None) order"
    and p: "list_all plain mid"
    and e: "suspendedCalls (concurrentTermination E reasons order s) = []"
    and f: "\<not> isTerminationInProgress (rstate (concurrentTermination E reasons order s))"
    unfolding rs by blast
  let ?ev = "newEvents s (rstate (concurrentTermination E reasons order s))"
  have ev: "?ev = Logged LDebug ''Starting coordinated termination'' #
            PerformBegin r # mid @ [PerformEnd] @
            replicate (length rs) (Logged LDebug ''Termination already in progress, waiting'') @
            map (\<lambda>i. CallSettled i None) order"
    by (simp add: newEvents_def h)
  note pf = plain_facts [OF p] and ps = plain_not_settled [OF p]
  have u: "untilPerformEnd ?ev = Logged LDebug ''Starting coordinated termination'' #
            PerformBegin r # mid"
    using pf by (simp add: ev untilPerformEnd_def)
  have 1: "filter isPerformBegin ?ev = [PerformBegin (hd reasons)]"
    using pf unfolding ev by (simp add: rs settled_facts joined_facts)
  have 2: "count_list ?ev PerformEnd = 1"
    using pf by (simp add: ev settled_facts joined_facts)
  have 3: "filter isCallSettled (untilPerformEnd ?ev) = []"
    using ps by (simp add: u)
  have 4: "filter isCallSettled ?ev = map (\<lambda>i. CallSettled i None) order"
    using ps by (simp add: ev settled_facts joined_facts)
  have "endInv (rstate (newSystem s))" using assms(3) by (simp add: newSystem_def)
  then have "endInv (rstate (concurrentTermination E reasons order s))"
    unfolding concurrentTermination_def by (rule endInv_run)
  then have 5: "endCalls (rstate (concurrentTermination E reasons order s)) \<le> 1"
    by (simp add: endInv_def split: if_splits)
  show ?thesis
    using 1 2 3 4 5 e f by (simp add: Let_def)
qed

lemma endInv_reachable: "endInv (rstate (run E cs (newSystem newResponseState)))"
  by (rule endInv_run) (simp add: endInv_def endCalls_def newSystem_def newResponseState_def)

theorem single_flight_termination_witness:
  "logger_ok quietEnv \<and> \<not> isTerminationInProgress newResponseState \<and>
   endInv newResponseState \<and> [''timeout'', ''client_disconnect'', ''error_boundary''] \<noteq> [] \<and>
   distinct [2, 0, 1 :: nat] \<and>
   set [2, 0, 1 :: nat] = {..<length [''timeout'', ''client_disconnect'', ''error_boundary'']} \<and>
   (let sys' = concurrentTermination quietEnv
                 [''timeout'', ''client_disconnect'', ''error_boundary''] [2, 0, 1] newResponseState;
        ev = newEvents newResponseState (rstate sys')
    in filter isPerformBegin ev =
         [PerformBegin (hd [''timeout'', ''client_disconnect'', ''error_boundary''])] \<and>
       count_list ev PerformEnd = 1 \<and>
       filter isCallSettled (untilPerformEnd ev) = [] \<and>
       filter isCallSettled ev = map (\<lambda>i. CallSettled i None) [2, 0, 1] \<and>
       endCalls (rstate sys') \<le> 1 \<and>
       suspendedCalls sys' = [] \<and>
       \<not> isTerminationInProgress (rstate sys'))"
proof -
  have 1: "logger_ok quietEnv" by (simp add: logger_ok_def quietEnv_def)
  have 2: "\<not> isTerminationInProgress newResponseState" by (simp add: newResponseState_def)
  have 3: "endInv newResponseState"
    by (simp add: endInv_def endCalls_def newResponseState_def)
  have 4: "[''timeout'', ''client_disconnect'', ''error_boundary''] \<noteq> []" by simp
  have 5: "distinct [2, 0, 1 :: nat]" by simp
  have 6: "set [2, 0, 1 :: nat] =
             {..<length [''timeout'', ''client_disconnect'', ''error_boundary'']}"
    by auto
  from 1 2 3 4 5 6 single_flight_termination [OF 1 2 3 4 5 6]
  show ?thesis by (intro conjI)
qed

section \<open>A failed termination and the callers that joined it\<close>

text \<open>
  A caller that joined an episode awaits the lock outside any try/catch: a rejected lock
  rejects its call. The caller that drives the episode awaits it inside the try/catch:
  the failure is logged as a warning and the call is fulfilled.
\<close>

lemma joined_caller_gets_rejection:
  "coordinatedTermination_resume E (AwaitJoin (Rejected e)) s = (Inl e, s)"
  by (simp add: coordinatedTermination_resume_def await_def throw_def)

lemma driving_caller_swallows:
  "logger_ok E \<Longrightarrow>
     coordinatedTermination_resume E (AwaitDrive reason (Rejected e)) s =
       (Inr (), (emit (Logged LWarn ''Error during coordinated termination'') s)
                  \<lparr>isTerminationInProgress := False\<rparr>)"
  by (simp add: coordinatedTermination_resume_def await_def flow_defs log_ok)

text \<open>
  C2. Two concurrent calls, with a logger that throws inside \<open>_performTermination\<close> (on
  the debug message that announces the end of the response) and nowhere else: the promise
  of \<open>_performTermination\<close> is rejected, the first call (which drove the episode) is
  fulfilled, and the second call (which only joined it) is rejected with the internal
  failure.
\<close>

theorem joined_caller_rethrows:
  "filter isCallSettled
     (history (rstate (concurrentTermination failingDebugEnv
                         [''timeout'', ''client_disconnect''] [0, 1] newResponseState))) =
   [CallSettled 0 None, CallSettled 1 (Some (Exn ''logger failed''))]"
  by (simp add: concurrentTermination_def run_def newSystem_def newResponseState_def
        failingDebugEnv_def coordinatedTermination_start_def coordinatedTermination_resume_def
        performTermination_def performTermination_body_def await_def settled_def
        canWrite_def log_def emit_def flow_defs)


section \<open>The intercepted \<open>end\<close> of ResponseManager\<close>

























text \<open>
  The run of the witness: the second callback sends the headers and registers a third
  one, which the loop reaches; the transport's own \<open>end\<close> is then called without arguments.
\<close>

lemma end_reaches_late_callback:
  "rm_end 5 quietMenv (Some ''bye'') None
     (onEnd lateCallback (onEnd cleanupCallback (newResponseManager False))) =
   Some (Inr (),
         \<lparr> rm_isEnded = True,
           endCallbacks = [cleanupCallback, lateCallback, metricsCallback],
           headersSent = True, res_headersSent = False,
           rm_history = [CallbackRun 0 True,
                         MLogged LDebug ''Response already ended, skipping'',
                         CallbackRun 4 True,
                         RealWriteHead 200,
                         CallbackRun 2 True,
                         RealEnd None None] \<rparr>)"
  by (simp add: eval_nat_numeral onEnd_def newResponseManager_def quietMenv_def
        cleanupCallback_def lateCallback_def metricsCallback_def mlog_def raised_def memit_def
        areHeadersSent_def callRealEnd_def rm_writeHead_def messageOf_def)


text \<open>The same three callbacks on a response whose headers are sent.\<close>

lemma end_swallows_failure_after_headers:
  "rm_end 5 quietMenv (Some ''bye'') None
     (onEnd metricsCallback (onEnd failingCallback (onEnd cleanupCallback
        (newResponseManager True)))) =
   Some (Inr (),
         \<lparr> rm_isEnded = True,
           endCallbacks = [cleanupCallback, failingCallback, metricsCallback],
           headersSent = False, res_headersSent = True,
           rm_history = [CallbackRun 0 True,
                         MLogged LDebug ''Response already ended, skipping'',
                         CallbackRun 1 True,
                         MLogged LError ''End callback failed'',
                         CallbackRun 2 True,
                         RealEnd (Some ''bye'') None] \<rparr>)"
  by (simp add: eval_nat_numeral onEnd_def newResponseManager_def quietMenv_def
        cleanupCallback_def failingCallback_def metricsCallback_def mlog_def raised_def
        memit_def areHeadersSent_def callRealEnd_def messageOf_def)

text \<open>
  C6. The catch block of the loop reads \<open>error.message\<close> before it logs and before it looks
  at \<open>areHeadersSent()\<close>. For an error object the policy is the one claimed (lemma
  \<open>runCallbacks_round\<close>: logged; rethrown if headers are not sent, swallowed otherwise). For
  a callback that throws \<open>null\<close> it is not. With headers sent, \<open>end\<close> raises a TypeError:
  nothing is logged, the callback after it never runs and the transport's own \<open>end\<close> is
  never called. With headers not sent, \<open>end\<close> raises that TypeError in place of the value
  thrown, and nothing is logged either.
\<close>

theorem end_raises_type_error_on_null:
  "rm_end 5 quietMenv (Some ''bye'') None
     (onEnd metricsCallback (onEnd nullCallback (onEnd cleanupCallback
        (newResponseManager True)))) =
   Some (Inl (Thrown nullMessageRead),
         \<lparr> rm_isEnded = True,
           endCallbacks = [cleanupCallback, nullCallback, metricsCallback],
           headersSent = False, res_headersSent = True,
           rm_history = [CallbackRun 0 True,
                         MLogged LDebug ''Response already ended, skipping'',
                         CallbackRun 3 True] \<rparr>) \<and>
   areHeadersSent (onEnd metricsCallback (onEnd nullCallback (onEnd cleanupCallback
        (newResponseManager True)))) \<and>
   rm_end 5 quietMenv (Some ''bye'') None
     (onEnd metricsCallback (onEnd nullCallback (onEnd cleanupCallback
        (newResponseManager False)))) =
   Some (Inl (Thrown nullMessageRead),
         \<lparr> rm_isEnded = True,
           endCallbacks = [cleanupCallback, nullCallback, metricsCallback],
           headersSent = False, res_headersSent = False,
           rm_history = [CallbackRun 0 True,
                         MLogged LDebug ''Response already ended, skipping'',
                         CallbackRun 3 True] \<rparr>) \<and>
   Thrown nullMessageRead \<noteq> Nullish"
  by (simp add: eval_nat_numeral onEnd_def newResponseManager_def quietMenv_def
        cleanupCallback_def nullCallback_def metricsCallback_def mlog_def raised_def
        memit_def areHeadersSent_def callRealEnd_def messageOf_def)

end
